theory Spec2Isabelle
  imports Main "HOL-Library.Word"
begin

section \<open>Failures\<close>

text \<open>
  The streams fail in two ways. A failed \<^verbatim>\<open>assert\<close> aborts the program; the growth
  protocol of the string stream throws
  \<^verbatim>\<open>stream_bounds_exception (operation, type, offset, expected, remaining)\<close>.
  A C++ member function mutates its object before it throws, so a failure is returned
  together with the state of the stream at the point of failure.
\<close>

datatype error =
    assertion_failed
  | stream_bounds_exception string string nat nat nat

type_synonym 's outcome = "(error \<times> 's) + 's"

type_synonym ('a, 's) returns = "(error \<times> 's) + ('a \<times> 's)"

section \<open>The binary output stream (mostream.h)\<close>

text \<open>
  \<^verbatim>\<open>class ostream : public memlink\<close>: the inherited link is a pointer and a size, the
  stream adds the write position. The pointer is modelled by the block of memory it
  points to: \<open>m_Data s ! i\<close> is the byte at \<^verbatim>\<open>begin() + i\<close>. Offsets and sizes
  (\<^verbatim>\<open>uoff_t\<close>, \<^verbatim>\<open>size_t\<close>) are natural numbers: the model covers runs in which no
  offset computation exceeds the range of \<^verbatim>\<open>size_t\<close>. \<^verbatim>\<open>remaining()\<close> subtracts the
  position from the size; while the position is within the size the unsigned subtraction
  of the source and the subtraction of natural numbers agree.
\<close>

record ostream =
  m_Data :: "char list"
  m_Size :: nat
  m_Pos :: nat

definition size' :: "'a ostream_scheme \<Rightarrow> nat" where
  "size' s = m_Size s"

definition pos :: "'a ostream_scheme \<Rightarrow> nat" where
  "pos s = m_Pos s"

definition seek :: "'a ostream_scheme \<Rightarrow> nat \<Rightarrow> 'a ostream_scheme outcome" where
  "seek s newPos =
     (if newPos \<le> size' s then Inr (s\<lparr>m_Pos := newPos\<rparr>) else Inl (assertion_failed, s))"

definition skip :: "'a ostream_scheme \<Rightarrow> nat \<Rightarrow> 'a ostream_scheme outcome" where
  "skip s nBytes = seek s (pos s + nBytes)"

definition remaining :: "'a ostream_scheme \<Rightarrow> nat" where
  "remaining s = size' s - pos s"

definition aligned :: "'a ostream_scheme \<Rightarrow> nat \<Rightarrow> bool" where
  "aligned s grain = (pos s mod grain = 0)"

text \<open>
  Modelled from the spec: the helper \<^verbatim>\<open>Align (n, grain)\<close> is declared in a header outside
  mostream.h and sostream.cc. The spec says that aligning advances to the next multiple of the grain, that
  the result is not below \<open>n\<close> and less than one grain above it.
\<close>

definition Align :: "nat \<Rightarrow> nat \<Rightarrow> nat" where
  "Align n grain = (if n mod grain = 0 then n else n + (grain - n mod grain))"

definition align :: "'a ostream_scheme \<Rightarrow> nat \<Rightarrow> 'a ostream_scheme outcome" where
  "align s grain = seek s (Align (pos s) grain)"

definition stream_size :: "'a ostream_scheme \<Rightarrow> nat" where
  "stream_size s = pos s"

text \<open>The copy of \<open>bytes\<close> into a block of memory, from offset \<open>p\<close> on.\<close>

definition store :: "char list \<Rightarrow> nat \<Rightarrow> char list \<Rightarrow> char list" where
  "store m p bytes = take p m @ bytes @ drop (p + length bytes) m"

text \<open>
  Modelled from the spec: \<^verbatim>\<open>ostream::write (const void*, size_t)\<close> is defined in
  mostream.cc, outside the two files modelled here. The spec: it copies exactly the given
  bytes at the position, then advances the position by their number, and fails fatally
  when there are more bytes than \<^verbatim>\<open>remaining()\<close>.
\<close>

definition ostream_write :: "'a ostream_scheme \<Rightarrow> char list \<Rightarrow> 'a ostream_scheme outcome" where
  "ostream_write s buffer =
     (if remaining s \<ge> length buffer
      then skip (s\<lparr>m_Data := store (m_Data s) (pos s) buffer\<rparr>) (length buffer)
      else Inl (assertion_failed, s))"

text \<open>
  \<^verbatim>\<open>ostream::iwrite (const T& v)\<close>. The value arrives as its object representation, the
  \<^verbatim>\<open>sizeof(T)\<close> bytes that the store through the cast pointer copies;
  \<^verbatim>\<open>c_DefaultAlignment\<close> is a constant declared in another header and is a
  parameter.
\<close>

definition ostream_iwrite ::
  "nat \<Rightarrow> 'a ostream_scheme \<Rightarrow> char list \<Rightarrow> 'a ostream_scheme outcome" where
  "ostream_iwrite c_DefaultAlignment s v =
     (let sizeof_T = length v in
      if \<not> aligned s (if sizeof_T < c_DefaultAlignment then sizeof_T else c_DefaultAlignment)
      then Inl (assertion_failed, s)
      else if \<not> (remaining s \<ge> sizeof_T)
      then Inl (assertion_failed, s)
      else skip (s\<lparr>m_Data := store (m_Data s) (pos s) v\<rparr>) sizeof_T)"

subsection \<open>Sequences of cursor operations\<close>

datatype cursor_op =
    Seek nat
  | Skip nat
  | Align_to nat
  | Write "char list"

fun apply_op :: "'a ostream_scheme \<Rightarrow> cursor_op \<Rightarrow> 'a ostream_scheme outcome" where
  "apply_op s (Seek n) = seek s n"
| "apply_op s (Skip n) = skip s n"
| "apply_op s (Align_to g) = align s g"
| "apply_op s (Write bytes) = ostream_write s bytes"

text \<open>A failed assertion ends the run.\<close>

fun run_ops :: "'a ostream_scheme \<Rightarrow> cursor_op list \<Rightarrow> 'a ostream_scheme outcome" where
  "run_ops s [] = Inr s"
| "run_ops s (x # xs) =
     (case apply_op s x of Inl e \<Rightarrow> Inl e | Inr s' \<Rightarrow> run_ops s' xs)"

section \<open>The string output stream (sostream.cc)\<close>

text \<open>
  \<^verbatim>\<open>class ostringstream : public ostream\<close> owns the string \<^verbatim>\<open>m_Buffer\<close> and keeps its
  base class linked to the storage of that string. The view of the base class and the
  string therefore share one block of memory, \<open>m_Data\<close>, whose length is the capacity of
  the string; they differ in their sizes: \<open>m_Size\<close> is the size of the view,
  \<open>m_Buffer_size\<close> is \<^verbatim>\<open>m_Buffer.size()\<close>. Every path of sostream.cc that lets the
  string move its storage links the view again before it uses it, so one block models
  both.

  The formatting flags are a bit set over \<^verbatim>\<open>fmtflags\<close>, an enumeration declared in
  another header; the model keeps the set of the flags that are on.
\<close>

datatype fmtflags = oct | dec | hex | left | right | scientific

record ostringstream = ostream +
  m_Buffer_size :: nat
  m_Buffer_resizable :: bool
  m_Flags :: "fmtflags set"
  m_Base :: nat
  m_Precision :: nat
  m_Width :: nat
  m_DecimalSeparator :: char
  m_ThousandSeparator :: char

subsection \<open>The buffer the stream owns\<close>

text \<open>
  Modelled from the spec: the string and memory block classes (\<^verbatim>\<open>reserve\<close>,
  \<^verbatim>\<open>resize\<close>, \<^verbatim>\<open>link\<close>, assignment) are defined outside the two files modelled here. The spec
  describes the buffer as a collaborator that reserves capacity and resizes, keeping the
  existing content when the growth protocol enlarges it, and that cannot be resized while
  it is bound to an external region of memory. \<open>m_Buffer_resizable\<close> tells the two modes
  apart. The second argument of \<^verbatim>\<open>reserve\<close> does not decide whether content survives (the
  growth protocol passes \<^verbatim>\<open>false\<close> and the spec has the content kept), so the model
  ignores it. Fresh storage is filled with zero bytes; nothing below depends on them.
\<close>

definition reserve :: "ostringstream \<Rightarrow> nat \<Rightarrow> bool \<Rightarrow> ostringstream" where
  "reserve s newSize bExact =
     (if m_Buffer_resizable s \<and> length (m_Data s) < newSize
      then s\<lparr>m_Data := m_Data s @ replicate (newSize - length (m_Data s)) (CHR 0x00)\<rparr>
      else s)"

definition resize :: "ostringstream \<Rightarrow> nat \<Rightarrow> ostringstream" where
  "resize s newSize =
     (if newSize \<le> length (m_Data s) then s\<lparr>m_Buffer_size := newSize\<rparr>
      else if m_Buffer_resizable s then (reserve s newSize True)\<lparr>m_Buffer_size := newSize\<rparr>
      else s)"

text \<open>\<^verbatim>\<open>ostream::link (m_Buffer)\<close>: the view takes the begin and the size of the string.\<close>

definition link_m_Buffer :: "ostringstream \<Rightarrow> ostringstream" where
  "link_m_Buffer s = s\<lparr>m_Size := m_Buffer_size s\<rparr>"

text \<open>The content of the string \<^verbatim>\<open>m_Buffer\<close>.\<close>

definition m_Buffer :: "ostringstream \<Rightarrow> string" where
  "m_Buffer s = take (m_Buffer_size s) (m_Data s)"

subsection \<open>Construction\<close>

text \<open>
  \<^verbatim>\<open>ostringstream (void* p, size_t n)\<close> and \<^verbatim>\<open>link (void* p, size_t n)\<close>. The region is
  \<open>Some\<close> block of \<open>n\<close> bytes or the null pointer \<open>None\<close>; a null pointer leaves the
  stream with an empty buffer of its own.
\<close>

definition ostringstream_link :: "char list option \<Rightarrow> nat \<Rightarrow> ostringstream outcome" where
  "ostringstream_link p n =
     (let s = \<lparr>m_Data = (case p of None \<Rightarrow> [] | Some blk \<Rightarrow> blk), m_Size = n, m_Pos = 0,
                m_Buffer_size = n, m_Buffer_resizable = (p = None), m_Flags = {},
                m_Base = 10, m_Precision = 2, m_Width = 0,
                m_DecimalSeparator = CHR ''.'', m_ThousandSeparator = CHR '',''\<rparr>
      in if p \<noteq> None \<or> n = 0 then Inr s else Inl (assertion_failed, s))"

text \<open>\<^verbatim>\<open>ostringstream (const string& v)\<close>: the buffer is a copy of \<open>v\<close>, the view is linked to it.\<close>

definition ostringstream_string :: "string \<Rightarrow> ostringstream" where
  "ostringstream_string v =
     link_m_Buffer
       \<lparr>m_Data = v, m_Size = 0, m_Pos = 0,
        m_Buffer_size = length v, m_Buffer_resizable = True, m_Flags = {},
        m_Base = 10, m_Precision = 2, m_Width = 0,
        m_DecimalSeparator = CHR ''.'', m_ThousandSeparator = CHR '',''\<rparr>"

text \<open>\<^verbatim>\<open>str (const string& s)\<close>; the assignment resizes the buffer and copies \<open>v\<close> into it.\<close>

definition str :: "ostringstream \<Rightarrow> string \<Rightarrow> ostringstream outcome" where
  "str s v =
     (let s1 = resize s (length v);
          s2 = s1\<lparr>m_Data := store (m_Data s1) 0 (take (m_Buffer_size s1) v)\<rparr>;
          s3 = link_m_Buffer s2
      in seek s3 (m_Buffer_size s3))"

subsection \<open>Growth\<close>

text \<open>
  \<^verbatim>\<open>overflow (size_type n)\<close> returns \<^verbatim>\<open>remaining()\<close> or throws; \<^verbatim>\<open>flush()\<close> resizes the
  buffer to the position.
\<close>

definition overflow :: "ostringstream \<Rightarrow> nat \<Rightarrow> (nat, ostringstream) returns" where
  "overflow s n =
     (case (if n > remaining s
            then (let oldPos = pos s;
                      s1 = reserve s (oldPos + n) False;
                      s2 = resize s1 (oldPos + n);
                      s3 = link_m_Buffer s2
                  in seek s3 oldPos)
            else Inr s) of
        Inl e \<Rightarrow> Inl e
      | Inr s' \<Rightarrow>
          if n > remaining s'
          then Inl (stream_bounds_exception ''write'' ''text'' (pos s') n (remaining s'), s')
          else Inr (remaining s', s'))"

definition flush :: "ostringstream \<Rightarrow> ostringstream" where
  "flush s = resize s (pos s)"

subsection \<open>Raw writes\<close>

definition ostringstream_write :: "ostringstream \<Rightarrow> char list \<Rightarrow> ostringstream outcome" where
  "ostringstream_write s buffer =
     (let sz = length buffer in
      if remaining s < sz
      then (case overflow s sz of
              Inl e \<Rightarrow> Inl e
            | Inr (r, s') \<Rightarrow> if r < sz then Inr s' else ostream_write s' buffer)
      else ostream_write s buffer)"

text \<open>
  \<^verbatim>\<open>iwrite (uint8_t v)\<close>. The call \<^verbatim>\<open>overflow()\<close> takes its argument from the default in
  the class declaration, one byte.
\<close>

definition ostringstream_iwrite_uint8 ::
  "nat \<Rightarrow> ostringstream \<Rightarrow> char \<Rightarrow> ostringstream outcome" where
  "ostringstream_iwrite_uint8 c_DefaultAlignment s v =
     (if remaining s \<ge> 1 then ostream_iwrite c_DefaultAlignment s [v]
      else (case overflow s 1 of
              Inl e \<Rightarrow> Inl e
            | Inr (r, s') \<Rightarrow>
                if r \<ge> 1 then ostream_iwrite c_DefaultAlignment s' [v] else Inr s'))"

text \<open>
  \<^verbatim>\<open>write_buffer (const char* buf, size_type bufSize)\<close>. The loop
  \<^verbatim>\<open>while ((written += btw) < bufSize && (remaining() || overflow (bufSize - written)))\<close>
  is a recursion on the number of bytes written so far; it ends because the growth
  protocol never returns zero for a request of at least one byte.
\<close>

lemma overflow_returns_remaining:
  "overflow s n = Inr (r, s') \<Longrightarrow> r = remaining s' \<and> n \<le> r"
  by (auto simp: overflow_def Let_def split: sum.splits if_splits)

function write_buffer_loop ::
  "ostringstream \<Rightarrow> char list \<Rightarrow> nat \<Rightarrow> ostringstream outcome" where
  "write_buffer_loop s buf written =
     (let bufSize = length buf in
      if written < bufSize
      then (case (if remaining s \<noteq> 0 then Inr (True, s)
                  else (case overflow s (bufSize - written) of
                          Inl e \<Rightarrow> Inl e
                        | Inr (r, s') \<Rightarrow> Inr (r \<noteq> 0, s'))) of
              Inl e \<Rightarrow> Inl e
            | Inr (cond, s1) \<Rightarrow>
                if cond
                then (let btw = min (remaining s1) (bufSize - written) in
                      case ostringstream_write s1 (take btw (drop written buf)) of
                        Inl e \<Rightarrow> Inl e
                      | Inr s2 \<Rightarrow> write_buffer_loop s2 buf (written + btw))
                else Inr s1)
      else Inr s)"
  by pat_completeness auto
termination
  apply (relation "measure (\<lambda>(s, buf, written). length buf - written)")
   apply simp
  apply (auto split: if_splits sum.splits dest!: overflow_returns_remaining)
  done

declare write_buffer_loop.simps [simp del]

definition write_buffer :: "ostringstream \<Rightarrow> char list \<Rightarrow> ostringstream outcome" where
  "write_buffer s buf = write_buffer_loop s buf 0"

subsection \<open>Format strings\<close>

text \<open>
  \<^verbatim>\<open>encode_dec (char* fmt, uint32_t n)\<close>: the do-while loop appends one character for
  \<^verbatim>\<open>n % 10\<close> and goes on while \<^verbatim>\<open>n /= 10\<close> is not zero. The buffer is the string
  written so far; the function returns it extended.
\<close>

lemma uint32_div_10_less: "(n :: 32 word) div 10 \<noteq> 0 \<Longrightarrow> unat (n div 10) < unat n"
proof -
  assume nz: "n div 10 \<noteq> 0"
  have "unat (n div 10) = unat n div 10"
    by (simp add: unat_div)
  moreover from nz have "unat n \<noteq> 0"
    by (metis div_0 unat_eq_zero)
  ultimately show ?thesis
    by simp
qed

function encode_dec :: "string \<Rightarrow> 32 word \<Rightarrow> string" where
  "encode_dec fmt n =
     (let fmt' = fmt @ [char_of (of_char CHR ''0'' + unat (n mod 10))];
          n' = n div 10
      in if n' \<noteq> 0 then encode_dec fmt' n' else fmt')"
  by pat_completeness auto
termination
  by (relation "measure (\<lambda>(fmt, n). unat n)") (simp_all add: uint32_div_10_less)

declare encode_dec.simps [simp del]

text \<open>
  \<^verbatim>\<open>fmtstring (char* fmt, const char* typestr, bool bInteger)\<close>. The result is the
  string in \<^verbatim>\<open>fmt\<close> before its terminating zero; \<^verbatim>\<open>fmt[-1] = c\<close> overwrites the
  character written last. The fields \<^verbatim>\<open>m_Width\<close> and \<^verbatim>\<open>m_Precision\<close> are converted to
  \<^verbatim>\<open>uint32_t\<close> at the calls of \<^verbatim>\<open>encode_dec\<close>.
\<close>

definition fmtstring :: "ostringstream \<Rightarrow> string \<Rightarrow> bool \<Rightarrow> string" where
  "fmtstring s typestr bInteger =
     (let fmt = ''%'';
          fmt = (if m_Width s \<noteq> 0 then encode_dec fmt (of_nat (m_Width s)) else fmt);
          fmt = (if left \<in> m_Flags s then fmt @ ''-'' else fmt);
          fmt = (if \<not> bInteger then encode_dec (fmt @ ''.'') (of_nat (m_Precision s)) else fmt);
          fmt = fmt @ typestr
      in if bInteger
         then (if m_Base s = 16 then butlast fmt @ ''X''
               else if m_Base s = 8 then butlast fmt @ ''o''
               else fmt)
         else (if scientific \<in> m_Flags s then butlast fmt @ ''E'' else fmt))"

text \<open>
  For comparison, the decimal numeral of a number as the spec means it, with the most
  significant digit first. It is not part of the code.
\<close>

fun decimal_numeral :: "nat \<Rightarrow> string" where
  "decimal_numeral n =
     (if n < 10 then [char_of (of_char CHR ''0'' + n)]
      else decimal_numeral (n div 10) @ [char_of (of_char CHR ''0'' + n mod 10)])"

declare decimal_numeral.simps [simp del]

subsection \<open>Formatted writes\<close>

text \<open>
  Modelled from the spec: \<^verbatim>\<open>snprintf\<close> and \<^verbatim>\<open>vsnprintf\<close> belong to the C library.
  The spec describes the primitive: given a destination of some capacity it writes up to
  capacity - 1 bytes and a terminator, and returns the number of bytes the complete text
  has. The complete text that the format and the arguments render to is the parameter
  \<open>rendered\<close>; the result is the bytes put at the destination and the returned count.
\<close>

definition vsnprintf :: "nat \<Rightarrow> string \<Rightarrow> char list \<times> nat" where
  "vsnprintf n rendered =
     ((if n = 0 then [] else take (n - 1) rendered @ [CHR 0x00]), length rendered)"

text \<open>
  \<^verbatim>\<open>sprintf_iwrite (T v, const char* typestr)\<close>. The rendering of the C library is the
  parameter \<open>printf\<close>, from the format string and the value to the complete text;
  \<open>is_integer\<close> is \<^verbatim>\<open>numeric_limits<T>::is_integer\<close>. \<open>sprintf_buffer\<close> is the local
  buffer and the count \<open>i\<close> that the function hands to \<^verbatim>\<open>write_buffer\<close>.
\<close>

definition sprintf_buffer ::
  "(string \<Rightarrow> 'v \<Rightarrow> string) \<Rightarrow> ostringstream \<Rightarrow> 'v \<Rightarrow> string \<Rightarrow> bool \<Rightarrow> char list \<times> nat" where
  "sprintf_buffer printf s v typestr is_integer =
     (let c_BufSize = 64;
          fmt = fmtstring s typestr is_integer;
          (buffer, i) = vsnprintf c_BufSize (printf fmt v);
          i = min i (c_BufSize - 1)
      in (buffer, i))"

definition sprintf_iwrite ::
  "(string \<Rightarrow> 'v \<Rightarrow> string) \<Rightarrow> ostringstream \<Rightarrow> 'v \<Rightarrow> string \<Rightarrow> bool \<Rightarrow> ostringstream outcome" where
  "sprintf_iwrite printf s v typestr is_integer =
     (let (buffer, i) = sprintf_buffer printf s v typestr is_integer
      in write_buffer s (take i buffer))"

text \<open>\<^verbatim>\<open>iwrite (bool v)\<close>, \<^verbatim>\<open>iwrite (const char* s)\<close> and \<^verbatim>\<open>iwrite (const string& v)\<close>.\<close>

definition ostringstream_iwrite_bool :: "ostringstream \<Rightarrow> bool \<Rightarrow> ostringstream outcome" where
  "ostringstream_iwrite_bool s v =
     (let c_Names = [''false'', ''true''];
          i = (if v then 1 else 0)
      in write_buffer s (take (5 - i) (c_Names ! i)))"

definition ostringstream_iwrite_string :: "ostringstream \<Rightarrow> string \<Rightarrow> ostringstream outcome" where
  "ostringstream_iwrite_string s v = write_buffer s v"

text \<open>
  \<^verbatim>\<open>vformat (const char* fmt, va_list args)\<close>: \<open>rendered\<close> is the complete text of the
  format and its arguments, the same at both calls of \<^verbatim>\<open>vsnprintf\<close>, which write at
  \<^verbatim>\<open>ipos()\<close>, the position.
\<close>

definition vsnprintf_ipos :: "ostringstream \<Rightarrow> string \<Rightarrow> nat \<times> ostringstream" where
  "vsnprintf_ipos s rendered =
     (let (bytes, rv) = vsnprintf (remaining s) rendered
      in (rv, s\<lparr>m_Data := store (m_Data s) (pos s) bytes\<rparr>))"

definition vformat :: "ostringstream \<Rightarrow> string \<Rightarrow> (nat, ostringstream) returns" where
  "vformat s rendered =
     (let (rv, s1) = vsnprintf_ipos s rendered in
      case (if rv \<ge> remaining s1
            then (case overflow s1 (rv + 1) of
                    Inl e \<Rightarrow> Inl e
                  | Inr (r, s2) \<Rightarrow> if rv < r then Inr (vsnprintf_ipos s2 rendered) else Inr (rv, s2))
            else Inr (rv, s1)) of
        Inl e \<Rightarrow> Inl e
      | Inr (rv', s3) \<Rightarrow>
          (case skip s3 (min rv' (remaining s3)) of
             Inl e \<Rightarrow> Inl e
           | Inr s4 \<Rightarrow> Inr (rv', s4)))"

definition format :: "ostringstream \<Rightarrow> string \<Rightarrow> (nat, ostringstream) returns" where
  "format s rendered = vformat s rendered"

subsection \<open>Consistent streams\<close>

text \<open>
  The position lies within the view, and the view and the string lie within the storage.
  Every stream that the constructors make is consistent.
\<close>

definition consistent :: "ostringstream \<Rightarrow> bool" where
  "consistent s =
     (m_Pos s \<le> m_Size s \<and> m_Size s \<le> length (m_Data s) \<and> m_Buffer_size s \<le> length (m_Data s))"

text \<open>
  The relation between a stream and a later state of it in which \<open>bytes\<close> stand from the
  old position on, the position is behind them, and the bytes before the old position
  are the old ones.
\<close>

definition appended :: "ostringstream \<Rightarrow> char list \<Rightarrow> ostringstream \<Rightarrow> bool" where
  "appended s bytes s' =
     (pos s' = pos s + length bytes
      \<and> take (length bytes) (drop (pos s) (m_Data s')) = bytes
      \<and> take (pos s) (m_Data s') = take (pos s) (m_Data s)
      \<and> consistent s' \<and> m_Buffer_resizable s')"

section \<open>Example streams\<close>

text \<open>A binary cursor over four bytes, at their start.\<close>

definition four_bytes :: ostream where
  "four_bytes = \<lparr>m_Data = ''zzzz'', m_Size = 4, m_Pos = 0\<rparr>"

text \<open>The four bytes of the \<^verbatim>\<open>int\<close> 1234 on a little-endian machine.\<close>

definition int_1234 :: "char list" where
  "int_1234 = [CHR 0xD2, CHR 0x04, CHR 0x00, CHR 0x00]"

text \<open>
  String streams bound to external regions of two and of four bytes: fresh, after two
  bytes were written, and after one byte was written and the stream flushed.
\<close>

definition linked_2 :: ostringstream where
  "linked_2 =
     \<lparr>m_Data = ''ab'', m_Size = 2, m_Pos = 0,
      m_Buffer_size = 2, m_Buffer_resizable = False, m_Flags = {},
      m_Base = 10, m_Precision = 2, m_Width = 0,
      m_DecimalSeparator = CHR ''.'', m_ThousandSeparator = CHR '',''\<rparr>"

definition linked_2_full :: ostringstream where
  "linked_2_full = linked_2\<lparr>m_Data := ''xy'', m_Pos := 2\<rparr>"

definition linked_4 :: ostringstream where
  "linked_4 = linked_2\<lparr>m_Data := ''abcd'', m_Size := 4, m_Buffer_size := 4\<rparr>"

definition linked_4_flushed :: ostringstream where
  "linked_4_flushed = linked_2\<lparr>m_Data := ''xbcd'', m_Size := 4, m_Pos := 1, m_Buffer_size := 1\<rparr>"

text \<open>
  Later states of the flushed stream: after a write of four bytes failed, which has linked
  the view to the flushed buffer; after \<open>''yz''\<close> was written behind the flush point; and
  after \<open>''yzw''\<close> was written there, up to the end of the region.
\<close>

definition linked_4_shrunk :: ostringstream where
  "linked_4_shrunk = linked_4_flushed\<lparr>m_Size := 1\<rparr>"

definition linked_4_rewritten :: ostringstream where
  "linked_4_rewritten = linked_2\<lparr>m_Data := ''xyzd'', m_Size := 4, m_Pos := 3, m_Buffer_size := 1\<rparr>"

definition linked_4_refilled :: ostringstream where
  "linked_4_refilled = linked_2\<lparr>m_Data := ''xyzw'', m_Size := 4, m_Pos := 4, m_Buffer_size := 1\<rparr>"

text \<open>
  String streams with a buffer of their own: one made from a string of two bytes, and the
  one made from \<open>''hello''\<close> after \<open>''abc''\<close> was written to it.
\<close>

definition owned_2 :: ostringstream where
  "owned_2 = ostringstream_string ''zz''"

definition hello_abc :: ostringstream where
  "hello_abc = (ostringstream_string ''hello'')\<lparr>m_Data := ''abclo'', m_Pos := 3\<rparr>"

text \<open>A rendering of the C library that is a hundred characters long.\<close>

definition sevens :: "string \<Rightarrow> nat \<Rightarrow> string" where
  "sevens fmt v = replicate 100 CHR ''7''"

section \<open>The copy into memory\<close>

lemma length_store: "p + length bytes \<le> length m \<Longrightarrow> length (store m p bytes) = length m"
  by (simp add: store_def)

lemma take_store: "p \<le> length m \<Longrightarrow> take p (store m p bytes) = take p m"
  by (simp add: store_def)

lemma store_region: "p \<le> length m \<Longrightarrow> take (length bytes) (drop p (store m p bytes)) = bytes"
  by (simp add: store_def)

lemma drop_store:
  "p + length bytes \<le> length m \<Longrightarrow> drop (p + length bytes) (store m p bytes) = drop (p + length bytes) m"
  by (simp add: store_def)

section \<open>The position stays within the view\<close>

lemma seek_cases:
  "seek s n = (if n \<le> size' s then Inr (s\<lparr>m_Pos := n\<rparr>) else Inl (assertion_failed, s))"
  by (simp add: seek_def)

lemma Align_ge: "n \<le> Align n g"
  by (simp add: Align_def)

lemma apply_op_Inr:
  assumes "apply_op s x = Inr s'" and "pos s \<le> size' s"
  shows "pos s' \<le> size' s' \<and> size' s' = size' s"
  using assms
  by (cases x) (auto simp: seek_def skip_def align_def ostream_write_def pos_def size'_def split: if_splits)

lemma apply_op_Inl:
  assumes "apply_op s x = Inl (e, s')" and "pos s \<le> size' s"
  shows "e = assertion_failed \<and> pos s' \<le> size' s'"
  using assms
  by (cases x) (auto simp: seek_def skip_def align_def ostream_write_def pos_def size'_def remaining_def split: if_splits)

lemma run_ops_Inr:
  "run_ops s ops = Inr s' \<Longrightarrow> pos s \<le> size' s \<Longrightarrow> pos s' \<le> size' s' \<and> size' s' = size' s"
proof (induction ops arbitrary: s)
  case Nil
  then show ?case by simp
next
  case (Cons x xs)
  from Cons.prems(1) obtain s1 where step: "apply_op s x = Inr s1" and rest: "run_ops s1 xs = Inr s'"
    by (auto split: sum.splits)
  from apply_op_Inr [OF step Cons.prems(2)] have "pos s1 \<le> size' s1" and "size' s1 = size' s"
    by simp_all
  with Cons.IH [OF rest] show ?case by simp
qed

lemma run_ops_Inl:
  "run_ops s ops = Inl (e, s') \<Longrightarrow> pos s \<le> size' s \<Longrightarrow> e = assertion_failed \<and> pos s' \<le> size' s'"
proof (induction ops arbitrary: s)
  case Nil
  then show ?case by simp
next
  case (Cons x xs)
  show ?case
  proof (cases "apply_op s x")
    case (Inl a)
    with Cons.prems(1) have "apply_op s x = Inl (e, s')" by simp
    from apply_op_Inl [OF this Cons.prems(2)] show ?thesis .
  next
    case (Inr s1)
    with Cons.prems(1) have rest: "run_ops s1 xs = Inl (e, s')" by simp
    from apply_op_Inr [OF Inr Cons.prems(2)] have "pos s1 \<le> size' s1" by simp
    from Cons.IH [OF rest this] show ?thesis .
  qed
qed

text \<open>
  Claim C7. Every sequence of seek, skip, align and write operations on the binary
  cursor that starts with the position within the capacity keeps it there, whether the
  sequence runs to its end or stops at a failed assertion; the capacity does not change.
  A seek beyond the capacity fails the assertion, any other seek sets the position,
  forwards or backwards, and skipping \<open>k\<close> bytes is seeking to the position plus \<open>k\<close>.
\<close>

theorem cursor_position_bounded:
  assumes "pos s \<le> size' s"
  shows "(\<forall>s'. run_ops s ops = Inr s' \<longrightarrow> pos s' \<le> size' s' \<and> size' s' = size' s)
       \<and> (\<forall>e s'. run_ops s ops = Inl (e, s') \<longrightarrow> e = assertion_failed \<and> pos s' \<le> size' s')
       \<and> seek s n = (if n \<le> size' s then Inr (s\<lparr>m_Pos := n\<rparr>) else Inl (assertion_failed, s))
       \<and> skip s k = seek s (pos s + k)"
proof (intro conjI allI impI)
  fix s' assume "run_ops s ops = Inr s'"
  from run_ops_Inr [OF this assms] show "pos s' \<le> size' s'" and "size' s' = size' s"
    by simp_all
next
  fix e s' assume "run_ops s ops = Inl (e, s')"
  from run_ops_Inl [OF this assms] show "e = assertion_failed" and "pos s' \<le> size' s'"
    by simp_all
next
  show "seek s n = (if n \<le> size' s then Inr (s\<lparr>m_Pos := n\<rparr>) else Inl (assertion_failed, s))"
    by (rule seek_cases)
next
  show "skip s k = seek s (pos s + k)"
    by (simp add: skip_def)
qed

lemma run_example:
  "run_ops four_bytes [Seek 3, Seek 1, Skip 2, Align_to 4, Seek 0, Write ''ab'']
     = Inr \<lparr>m_Data = ''abzz'', m_Size = 4, m_Pos = 2\<rparr>"
  by code_simp

lemma run_example_fail:
  "run_ops four_bytes [Seek 3, Skip 2, Seek 0] = Inl (assertion_failed, \<lparr>m_Data = ''zzzz'', m_Size = 4, m_Pos = 3\<rparr>)"
  by code_simp

theorem cursor_position_bounded_witness:
  "pos four_bytes \<le> size' four_bytes
   \<and> run_ops four_bytes [Seek 3, Seek 1, Skip 2, Align_to 4, Seek 0, Write ''ab'']
       = Inr \<lparr>m_Data = ''abzz'', m_Size = 4, m_Pos = 2\<rparr>
   \<and> pos \<lparr>m_Data = ''abzz'', m_Size = 4, m_Pos = 2\<rparr> \<le> size' \<lparr>m_Data = ''abzz'', m_Size = 4, m_Pos = 2\<rparr>
   \<and> run_ops four_bytes [Seek 3, Skip 2, Seek 0] = Inl (assertion_failed, \<lparr>m_Data = ''zzzz'', m_Size = 4, m_Pos = 3\<rparr>)
   \<and> seek four_bytes 5 = Inl (assertion_failed, four_bytes)
   \<and> skip four_bytes 4 = seek four_bytes 4"
proof -
  have start: "pos four_bytes \<le> size' four_bytes"
    by (simp add: pos_def size'_def four_bytes_def)
  from cursor_position_bounded [OF start, of "[Seek 3, Seek 1, Skip 2, Align_to 4, Seek 0, Write ''ab'']" 5 4]
  show ?thesis
    using start run_example run_example_fail
    by (simp add: size'_def pos_def four_bytes_def)
qed

section \<open>Typed writes\<close>

text \<open>
  Claim C6. A typed write of a value whose object representation \<open>v\<close> has
  \<^verbatim>\<open>sizeof(T)\<close> bytes, at a position aligned on the lesser of \<^verbatim>\<open>sizeof(T)\<close> and the
  default alignment and with at least \<^verbatim>\<open>sizeof(T)\<close> bytes remaining, passes both
  assertions, stores exactly these bytes at the position, leaves all other bytes alone and
  advances the position by \<^verbatim>\<open>sizeof(T)\<close>. The alignment constant is positive, a type has
  at least one byte and the view lies within its memory. The instance below writes the four
  bytes of the \<^verbatim>\<open>int\<close> 1234 at position 0 of a cursor over four bytes: the buffer is
  these four bytes and the position is 4.
\<close>

theorem iwrite_stores_representation:
  assumes "0 < c_DefaultAlignment" and "v \<noteq> []"
    and "size' s \<le> length (m_Data s)"
    and "aligned s (min (length v) c_DefaultAlignment)"
    and "remaining s \<ge> length v"
  shows "ostream_iwrite c_DefaultAlignment s v
           = Inr (s\<lparr>m_Data := store (m_Data s) (pos s) v, m_Pos := pos s + length v\<rparr>)
       \<and> take (length v) (drop (pos s) (store (m_Data s) (pos s) v)) = v
       \<and> take (pos s) (store (m_Data s) (pos s) v) = take (pos s) (m_Data s)
       \<and> drop (pos s + length v) (store (m_Data s) (pos s) v) = drop (pos s + length v) (m_Data s)"
proof -
  from assms(2) have "0 < length v" by simp
  with assms(5) have inside: "pos s + length v \<le> size' s"
    unfolding remaining_def by arith
  with assms(3) have mem: "pos s + length v \<le> length (m_Data s)" by simp
  have grain: "(if length v < c_DefaultAlignment then length v else c_DefaultAlignment)
                 = min (length v) c_DefaultAlignment"
    by (simp add: min_def)
  have "ostream_iwrite c_DefaultAlignment s v
          = skip (s\<lparr>m_Data := store (m_Data s) (pos s) v\<rparr>) (length v)"
    using assms(4,5) by (simp add: ostream_iwrite_def Let_def grain)
  also have "\<dots> = Inr (s\<lparr>m_Data := store (m_Data s) (pos s) v, m_Pos := pos s + length v\<rparr>)"
    using inside by (simp add: skip_def seek_def pos_def size'_def)
  finally have written: "ostream_iwrite c_DefaultAlignment s v
      = Inr (s\<lparr>m_Data := store (m_Data s) (pos s) v, m_Pos := pos s + length v\<rparr>)" .
  from mem have "pos s \<le> length (m_Data s)" by simp
  with written mem show ?thesis
    by (simp add: store_region take_store drop_store)
qed

theorem iwrite_stores_representation_witness:
  "(0::nat) < 4 \<and> int_1234 \<noteq> []
   \<and> size' four_bytes \<le> length (m_Data four_bytes)
   \<and> aligned four_bytes (min (length int_1234) 4)
   \<and> remaining four_bytes \<ge> length int_1234
   \<and> ostream_iwrite 4 four_bytes int_1234 = Inr \<lparr>m_Data = int_1234, m_Size = 4, m_Pos = 4\<rparr>"
proof -
  have a: "(0::nat) < 4" by simp
  have b: "int_1234 \<noteq> []" by (simp add: int_1234_def)
  have c: "size' four_bytes \<le> length (m_Data four_bytes)"
    by (simp add: size'_def four_bytes_def)
  have d: "aligned four_bytes (min (length int_1234) 4)"
    by (simp add: aligned_def pos_def four_bytes_def)
  have e: "remaining four_bytes \<ge> length int_1234"
    by (simp add: remaining_def size'_def pos_def four_bytes_def int_1234_def)
  from iwrite_stores_representation [OF a b c d e] a b c d e show ?thesis
    by (simp add: store_def pos_def four_bytes_def int_1234_def)
qed

section \<open>The growth protocol\<close>

lemma overflow_enough: "n \<le> remaining s \<Longrightarrow> overflow s n = Inr (remaining s, s)"
  by (simp add: overflow_def)

lemma overflow_resizable:
  assumes "consistent s" and "m_Buffer_resizable s" and "n > remaining s"
  shows "overflow s n =
           Inr (n, s\<lparr>m_Data := m_Data s @ replicate (pos s + n - length (m_Data s)) (CHR 0x00),
                     m_Size := pos s + n, m_Buffer_size := pos s + n\<rparr>)"
  using assms
  by (auto simp: overflow_def Let_def reserve_def resize_def link_m_Buffer_def seek_def
        pos_def size'_def remaining_def consistent_def)

lemma overflow_bounds_state:
  assumes "overflow s n = Inl (stream_bounds_exception op ty p k r, s')"
  shows "pos s' = pos s \<and> m_Data s' = m_Data s \<and> p = pos s \<and> k = n"
  using assms
  by (auto simp: overflow_def Let_def reserve_def resize_def link_m_Buffer_def seek_def
        pos_def size'_def remaining_def split: if_splits)

lemma ostream_write_Inl: "ostream_write s b = Inl (e, s') \<Longrightarrow> e = assertion_failed"
  by (auto simp: ostream_write_def skip_def seek_def split: if_splits)

lemma linked_2_constructed: "ostringstream_link (Some ''ab'') 2 = Inr linked_2"
  by (simp add: ostringstream_link_def linked_2_def)

lemma ostringstream_write_fits:
  assumes "pos s \<le> size' s" and "length b \<le> remaining s"
  shows "ostringstream_write s b
           = Inr (s\<lparr>m_Data := store (m_Data s) (pos s) b, m_Pos := pos s + length b\<rparr>)"
  using assms
  by (auto simp: ostringstream_write_def ostream_write_def skip_def seek_def remaining_def
        pos_def size'_def Let_def)

lemma length_vsnprintf: "length (fst (vsnprintf n r)) \<le> n"
  by (cases n) (simp_all add: vsnprintf_def)

lemma take_drop_cong:
  assumes "take (p + k) xs = take (p + k) ys"
  shows "take k (drop p xs) = take k (drop p ys)"
proof -
  have "take k (drop p xs) = drop p (take (p + k) xs)"
    by (simp add: drop_take)
  also have "\<dots> = drop p (take (p + k) ys)"
    by (simp only: assms)
  also have "\<dots> = take k (drop p ys)"
    by (simp add: drop_take)
  finally show ?thesis .
qed

lemma take_take_cong:
  assumes "take (p + k) xs = take (p + k) ys"
  shows "take p xs = take p ys"
proof -
  have "take p xs = take p (take (p + k) xs)"
    by simp
  also have "\<dots> = take p (take (p + k) ys)"
    by (simp only: assms)
  also have "\<dots> = take p ys"
    by simp
  finally show ?thesis .
qed

lemma appended_trans:
  assumes "appended s a s1" and "appended s1 b s2"
  shows "appended s (a @ b) s2"
proof -
  from assms have p1: "pos s1 = pos s + length a" and p2: "pos s2 = pos s1 + length b"
    and a: "take (length a) (drop (pos s) (m_Data s1)) = a"
    and b: "take (length b) (drop (pos s1) (m_Data s2)) = b"
    and keep1: "take (pos s) (m_Data s1) = take (pos s) (m_Data s)"
    and keep2: "take (pos s1) (m_Data s2) = take (pos s1) (m_Data s1)"
    and rest: "consistent s2" "m_Buffer_resizable s2"
    by (simp_all add: appended_def)
  from keep2 p1 have k: "take (pos s + length a) (m_Data s2) = take (pos s + length a) (m_Data s1)"
    by simp
  from take_drop_cong [OF k] a have a2: "take (length a) (drop (pos s) (m_Data s2)) = a"
    by simp
  from take_take_cong [OF k] keep1 have keep: "take (pos s) (m_Data s2) = take (pos s) (m_Data s)"
    by simp
  have "take (length (a @ b)) (drop (pos s) (m_Data s2))
          = take (length a) (drop (pos s) (m_Data s2))
            @ take (length b) (drop (length a) (drop (pos s) (m_Data s2)))"
    by (simp add: take_add)
  also have "\<dots> = a @ b"
    using a2 b p1 by (simp add: add.commute)
  finally have region: "take (length (a @ b)) (drop (pos s) (m_Data s2)) = a @ b" .
  from p1 p2 region keep rest show ?thesis
    by (simp add: appended_def)
qed

lemma write_fits_appended:
  assumes "consistent s" and "m_Buffer_resizable s" and "length b \<le> remaining s"
  shows "\<exists>s'. ostringstream_write s b = Inr s' \<and> appended s b s'"
proof -
  let ?s' = "s\<lparr>m_Data := store (m_Data s) (pos s) b, m_Pos := pos s + length b\<rparr>"
  from assms(1) have inside: "pos s \<le> size' s" and cap: "size' s \<le> length (m_Data s)"
    by (simp_all add: consistent_def pos_def size'_def)
  from inside assms(3) have fit: "pos s + length b \<le> size' s"
    unfolding remaining_def by arith
  with cap have mem: "pos s + length b \<le> length (m_Data s)" and p: "pos s \<le> length (m_Data s)"
    by simp_all
  have w: "ostringstream_write s b = Inr ?s'"
    using inside assms(3) by (rule ostringstream_write_fits)
  have "consistent ?s'"
    using assms(1) fit length_store [OF mem] by (simp add: consistent_def pos_def size'_def)
  with assms(2) p have "appended s b ?s'"
    by (simp add: appended_def pos_def store_region take_store)
  with w show ?thesis by blast
qed

lemma overflow_appended:
  assumes "consistent s" and "m_Buffer_resizable s" and "n > remaining s"
  shows "\<exists>s1. overflow s n = Inr (n, s1) \<and> appended s [] s1 \<and> remaining s1 = n
              \<and> size' s1 = pos s + n \<and> m_Buffer_size s1 = pos s + n
              \<and> take (length (m_Data s)) (m_Data s1) = m_Data s"
proof -
  let ?s1 = "s\<lparr>m_Data := m_Data s @ replicate (pos s + n - length (m_Data s)) (CHR 0x00),
               m_Size := pos s + n, m_Buffer_size := pos s + n\<rparr>"
  have o: "overflow s n = Inr (n, ?s1)"
    using assms by (rule overflow_resizable)
  from assms(1) have p: "m_Pos s \<le> length (m_Data s)"
    by (simp add: consistent_def)
  have "consistent ?s1"
    by (simp add: consistent_def pos_def)
  with assms(2) p have "appended s [] ?s1"
    by (simp add: appended_def pos_def)
  moreover have "remaining ?s1 = n"
    by (simp add: remaining_def size'_def pos_def)
  ultimately show ?thesis
    using o by (intro exI [of _ ?s1]) (simp add: size'_def pos_def)
qed

lemma write_buffer_loop_resizable:
  "consistent s \<Longrightarrow> m_Buffer_resizable s \<Longrightarrow> written \<le> length buf \<Longrightarrow>
     \<exists>s'. write_buffer_loop s buf written = Inr s' \<and> appended s (drop written buf) s'"
proof (induction "length buf - written" arbitrary: s written rule: less_induct)
  case less
  show ?case
  proof (cases "written < length buf")
    case False
    with less.prems have "appended s (drop written buf) s"
      by (simp add: appended_def)
    moreover from False have "write_buffer_loop s buf written = Inr s"
      by (subst write_buffer_loop.simps) simp
    ultimately show ?thesis by blast
  next
    case True
    define cond where "cond =
      (if remaining s \<noteq> 0 then Inr (True, s)
       else (case overflow s (length buf - written) of
               Inl e \<Rightarrow> Inl e
             | Inr (r, s') \<Rightarrow> Inr (r \<noteq> 0, s')))"
    have "\<exists>s1. cond = Inr (True, s1) \<and> appended s [] s1 \<and> remaining s1 \<noteq> 0"
    proof (cases "remaining s \<noteq> 0")
      case True
      with less.prems show ?thesis
        by (simp add: cond_def appended_def)
    next
      case False
      with True have "length buf - written > remaining s" by simp
      from overflow_appended [OF less.prems(1,2) this] True False show ?thesis
        by (auto simp: cond_def)
    qed
    then obtain s1 where c: "cond = Inr (True, s1)" and a1: "appended s [] s1"
      and r1: "remaining s1 \<noteq> 0"
      by blast
    define btw where "btw = min (remaining s1) (length buf - written)"
    from r1 True have btw_pos: "0 < btw" and btw_le: "written + btw \<le> length buf"
      and btw_fit: "btw \<le> remaining s1"
      by (simp_all add: btw_def)
    from btw_le have len: "length (take btw (drop written buf)) = btw"
      by simp
    from a1 have c1: "consistent s1" and o1: "m_Buffer_resizable s1"
      by (simp_all add: appended_def)
    from write_fits_appended [OF c1 o1, of "take btw (drop written buf)"] len btw_fit
    obtain s2 where w: "ostringstream_write s1 (take btw (drop written buf)) = Inr s2"
      and a2: "appended s1 (take btw (drop written buf)) s2"
      by auto
    from a2 have c2: "consistent s2" and o2: "m_Buffer_resizable s2"
      by (simp_all add: appended_def)
    from btw_pos True have smaller: "length buf - (written + btw) < length buf - written"
      by simp
    from less.hyps [OF smaller c2 o2 btw_le]
    obtain s' where l: "write_buffer_loop s2 buf (written + btw) = Inr s'"
      and a3: "appended s2 (drop (written + btw) buf) s'"
      by blast
    have "take btw (drop written buf) @ drop (written + btw) buf = drop written buf"
      by (metis add.commute append_take_drop_id drop_drop)
    with appended_trans [OF appended_trans [OF a1 a2] a3]
    have "appended s (drop written buf) s'"
      by simp
    moreover have "write_buffer_loop s buf written = Inr s'"
      by (subst write_buffer_loop.simps)
        (simp only: Let_def True if_True c [unfolded cond_def] sum.case prod.case
           w [unfolded btw_def] l [unfolded btw_def])
    ultimately show ?thesis by blast
  qed
qed

lemma write_buffer_resizable:
  assumes "consistent s" and "m_Buffer_resizable s"
  shows "\<exists>s'. write_buffer s buf = Inr s' \<and> appended s buf s'"
  using write_buffer_loop_resizable [OF assms, of 0 buf]
  by (simp add: write_buffer_def)

lemma vsnprintf_fits: "length r < n \<Longrightarrow> vsnprintf n r = (r @ [CHR 0x00], length r)"
  by (simp add: vsnprintf_def)

lemma vsnprintf_ipos_fits:
  "length r < remaining s \<Longrightarrow>
     vsnprintf_ipos s r = (length r, s\<lparr>m_Data := store (m_Data s) (pos s) (r @ [CHR 0x00])\<rparr>)"
  by (simp add: vsnprintf_ipos_def vsnprintf_fits)

lemma vsnprintf_ipos_consistent:
  assumes "consistent s" and "vsnprintf_ipos s r = (rv, s1)"
  shows "rv = length r \<and> consistent s1 \<and> pos s1 = pos s \<and> remaining s1 = remaining s
       \<and> m_Buffer_resizable s1 = m_Buffer_resizable s
       \<and> take (pos s) (m_Data s1) = take (pos s) (m_Data s)"
proof -
  let ?bytes = "fst (vsnprintf (remaining s) r)"
  have "pos s + length ?bytes \<le> length (m_Data s)"
    using assms(1) length_vsnprintf [of "remaining s" r]
    unfolding consistent_def remaining_def pos_def size'_def by arith
  then have len: "length (store (m_Data s) (pos s) ?bytes) = length (m_Data s)"
    and p: "pos s \<le> length (m_Data s)"
    by (simp_all add: length_store)
  from assms(2) have s1: "s1 = s\<lparr>m_Data := store (m_Data s) (pos s) ?bytes\<rparr>" and rv: "rv = length r"
    by (auto simp: vsnprintf_ipos_def vsnprintf_def split: prod.splits)
  from assms(1) len have "consistent s1"
    by (simp add: s1 consistent_def)
  with rv p show ?thesis
    by (simp add: s1 pos_def remaining_def size'_def take_store)
qed

lemma sprintf_buffer_eq:
  "sprintf_buffer printf s v typestr is_integer
     = (take 63 (printf (fmtstring s typestr is_integer) v) @ [CHR 0x00],
        min (length (printf (fmtstring s typestr is_integer) v)) 63)"
  by (simp add: sprintf_buffer_def vsnprintf_def Let_def)

lemma take_min_take: "take (min (length r) n) (take n r @ z) = take n r"
proof -
  have "length (take n r) = min (length r) n"
    by simp
  then show ?thesis
    by (metis append_eq_conv_conj)
qed

text \<open>
  A buffer bound to an external region cannot leave it. A request that fits the region is
  met by resizing within it. A request beyond the region links the view to the size of
  the buffer and then fails: with the bounds exception when the position lies within the
  buffer, at the assertion of \<^verbatim>\<open>seek\<close> when a flush has left the buffer shorter than the
  position.
\<close>

lemma overflow_not_resizable:
  assumes "consistent s" and "\<not> m_Buffer_resizable s" and "n > remaining s"
  shows "overflow s n =
     (if pos s + n \<le> length (m_Data s)
      then Inr (n, s\<lparr>m_Size := pos s + n, m_Buffer_size := pos s + n\<rparr>)
      else if pos s \<le> m_Buffer_size s
      then Inl (stream_bounds_exception ''write'' ''text'' (pos s) n (m_Buffer_size s - pos s),
                s\<lparr>m_Size := m_Buffer_size s\<rparr>)
      else Inl (assertion_failed, s\<lparr>m_Size := m_Buffer_size s\<rparr>))"
  using assms
  by (auto simp: overflow_def Let_def reserve_def resize_def link_m_Buffer_def seek_def
        pos_def size'_def remaining_def consistent_def)

lemma overflow_grown:
  assumes "consistent s" and "n > remaining s" and "overflow s n = Inr (k, s2)"
  shows "k = n \<and> remaining s2 = n \<and> pos s2 = pos s \<and> size' s2 = pos s + n
       \<and> consistent s2 \<and> m_Buffer_resizable s2 = m_Buffer_resizable s
       \<and> take (length (m_Data s)) (m_Data s2) = m_Data s"
proof (cases "m_Buffer_resizable s")
  case True
  from overflow_appended [OF assms(1) True assms(2)] assms(3) True show ?thesis
    by (auto simp: appended_def)
next
  case False
  from overflow_not_resizable [OF assms(1) False assms(2)] assms(1,3) False show ?thesis
    by (auto simp: consistent_def pos_def size'_def remaining_def split: if_splits)
qed

lemma write_buffer_loop_at_end:
  assumes "consistent s" and "\<not> m_Buffer_resizable s" and "written < length buf"
    and "remaining s = 0" and "length (m_Data s) < pos s + (length buf - written)"
  shows "write_buffer_loop s buf written =
     (if pos s \<le> m_Buffer_size s
      then Inl (stream_bounds_exception ''write'' ''text'' (pos s) (length buf - written)
                  (m_Buffer_size s - pos s), s\<lparr>m_Size := m_Buffer_size s\<rparr>)
      else Inl (assertion_failed, s\<lparr>m_Size := m_Buffer_size s\<rparr>))"
proof -
  from assms(3,4) have "length buf - written > remaining s"
    by simp
  from overflow_not_resizable [OF assms(1,2) this] assms(5)
  have "overflow s (length buf - written) =
     (if pos s \<le> m_Buffer_size s
      then Inl (stream_bounds_exception ''write'' ''text'' (pos s) (length buf - written)
                  (m_Buffer_size s - pos s), s\<lparr>m_Size := m_Buffer_size s\<rparr>)
      else Inl (assertion_failed, s\<lparr>m_Size := m_Buffer_size s\<rparr>))"
    by simp
  with assms(3,4) show ?thesis
    by (subst write_buffer_loop.simps) (simp add: Let_def)
qed

lemma write_buffer_not_resizable:
  assumes "consistent s" and "\<not> m_Buffer_resizable s" and "remaining s < length buf"
    and "length (m_Data s) < pos s + length buf"
  shows "write_buffer s buf =
     (if size' s \<le> m_Buffer_size s
      then Inl (stream_bounds_exception ''write'' ''text'' (size' s) (length buf - remaining s)
                  (m_Buffer_size s - size' s),
                s\<lparr>m_Data := store (m_Data s) (pos s) (take (remaining s) buf),
                  m_Pos := size' s, m_Size := m_Buffer_size s\<rparr>)
      else Inl (assertion_failed,
                s\<lparr>m_Data := store (m_Data s) (pos s) (take (remaining s) buf),
                  m_Pos := size' s, m_Size := m_Buffer_size s\<rparr>))"
proof -
  let ?s2 = "s\<lparr>m_Data := store (m_Data s) (pos s) (take (remaining s) buf), m_Pos := size' s\<rparr>"
  from assms(1) have inside: "pos s \<le> size' s" and cap: "size' s \<le> length (m_Data s)"
    by (simp_all add: consistent_def pos_def size'_def)
  from assms(3) have len: "length (take (remaining s) buf) = remaining s"
    by simp
  from inside have sum: "pos s + remaining s = size' s"
    by (simp add: remaining_def)
  from cap sum len have "pos s + length (take (remaining s) buf) \<le> length (m_Data s)"
    by simp
  then have keep: "length (store (m_Data s) (pos s) (take (remaining s) buf)) = length (m_Data s)"
    by (rule length_store)
  with assms(1) have c2: "consistent ?s2"
    by (simp add: consistent_def size'_def)
  from assms(2) have o2: "\<not> m_Buffer_resizable ?s2"
    by simp
  have r2: "remaining ?s2 = 0"
    by (simp add: remaining_def size'_def pos_def)
  have far: "length (m_Data ?s2) < pos ?s2 + (length buf - remaining s)"
    using keep assms(3,4) sum by (simp add: pos_def)
  have rest: "write_buffer_loop ?s2 buf (remaining s) =
     (if size' s \<le> m_Buffer_size s
      then Inl (stream_bounds_exception ''write'' ''text'' (size' s) (length buf - remaining s)
                  (m_Buffer_size s - size' s), ?s2\<lparr>m_Size := m_Buffer_size s\<rparr>)
      else Inl (assertion_failed, ?s2\<lparr>m_Size := m_Buffer_size s\<rparr>))"
    using write_buffer_loop_at_end [OF c2 o2 assms(3) r2 far] by (simp add: pos_def)
  show ?thesis
  proof (cases "remaining s = 0")
    case True
    with inside have at_end: "pos s = size' s"
      by (simp add: remaining_def)
    from cap at_end have "store (m_Data s) (pos s) [] = m_Data s"
      by (simp add: store_def)
    with True at_end have "?s2 = s"
      by (simp add: pos_def)
    with rest True show ?thesis
      by (simp add: write_buffer_def)
  next
    case False
    have step: "ostringstream_write s (take (remaining s) buf) = Inr ?s2"
      using ostringstream_write_fits [OF inside, of "take (remaining s) buf"] len sum by simp
    from assms(3) have min: "min (remaining s) (length buf) = remaining s"
      by simp
    from assms(3) have nonempty: "buf \<noteq> []"
      by auto
    have "write_buffer s buf = write_buffer_loop ?s2 buf (remaining s)"
      unfolding write_buffer_def
      by (subst write_buffer_loop.simps) (use False step min nonempty in \<open>simp add: Let_def\<close>)
    with rest show ?thesis
      by simp
  qed
qed

lemma ostringstream_write_returned:
  assumes "consistent s" and "ostringstream_write s buffer = Inr s'"
  shows "pos s' = pos s + length buffer
       \<and> take (length buffer) (drop (pos s) (m_Data s')) = buffer
       \<and> take (pos s) (m_Data s') = take (pos s) (m_Data s)"
proof (cases "remaining s < length buffer")
  case False
  from assms(1) have inside: "pos s \<le> size' s" and mem: "pos s \<le> length (m_Data s)"
    by (simp_all add: consistent_def pos_def size'_def)
  from False have "length buffer \<le> remaining s"
    by simp
  from ostringstream_write_fits [OF inside this] assms(2) mem show ?thesis
    by (auto simp: pos_def store_region take_store)
next
  case True
  show ?thesis
  proof (cases "overflow s (length buffer)")
    case (Inl e)
    with True assms(2) show ?thesis
      by (simp add: ostringstream_write_def)
  next
    case (Inr g)
    obtain k s2 where g: "g = (k, s2)"
      by (cases g)
    from True have more: "length buffer > remaining s"
      by simp
    from overflow_grown [OF assms(1) more Inr [unfolded g]]
    have k: "k = length buffer" and r2: "remaining s2 = length buffer" and p2: "pos s2 = pos s"
      and c2: "consistent s2" and k2: "take (length (m_Data s)) (m_Data s2) = m_Data s"
      by simp_all
    from c2 have inside2: "pos s2 \<le> size' s2" and mem2: "pos s2 \<le> length (m_Data s2)"
      by (simp_all add: consistent_def pos_def size'_def)
    from assms(1) have mem: "pos s \<le> length (m_Data s)"
      by (simp add: consistent_def pos_def)
    have "take (pos s) (m_Data s2) = take (pos s) (take (length (m_Data s)) (m_Data s2))"
      using mem by (simp add: min_def)
    with k2 have prefix: "take (pos s) (m_Data s2) = take (pos s) (m_Data s)"
      by simp
    have "ostringstream_write s buffer = ostream_write s2 buffer"
      using True Inr g k by (simp add: ostringstream_write_def)
    also have "\<dots> = Inr (s2\<lparr>m_Data := store (m_Data s2) (pos s2) buffer,
                              m_Pos := pos s2 + length buffer\<rparr>)"
      using r2 inside2
      by (auto simp: ostream_write_def skip_def seek_def remaining_def pos_def size'_def)
    finally have "s' = s2\<lparr>m_Data := store (m_Data s2) (pos s2) buffer,
                             m_Pos := pos s2 + length buffer\<rparr>"
      using assms(2) by simp
    with p2 mem2 prefix show ?thesis
      by (simp add: pos_def store_region take_store)
  qed
qed

lemma vsnprintf_ipos_storage:
  assumes "consistent s" and "vsnprintf_ipos s r = (rv, s1)"
  shows "m_Buffer_size s1 = m_Buffer_size s \<and> length (m_Data s1) = length (m_Data s)"
proof -
  let ?bytes = "fst (vsnprintf (remaining s) r)"
  have "pos s + length ?bytes \<le> length (m_Data s)"
    using assms(1) length_vsnprintf [of "remaining s" r]
    unfolding consistent_def remaining_def pos_def size'_def by arith
  then have "length (store (m_Data s) (pos s) ?bytes) = length (m_Data s)"
    by (rule length_store)
  with assms(2) show ?thesis
    by (auto simp: vsnprintf_ipos_def split: prod.splits)
qed

lemma vformat_second:
  assumes "vsnprintf_ipos s r = (length r, s1)" and "remaining s1 \<le> length r"
    and "overflow s1 (length r + 1) = Inr (length r + 1, s2)"
    and "remaining s2 = length r + 1"
  shows "vformat s r = Inr (length r, s2\<lparr>m_Data := store (m_Data s2) (pos s2) (r @ [CHR 0x00]),
                                         m_Pos := pos s2 + length r\<rparr>)"
proof -
  let ?s3 = "s2\<lparr>m_Data := store (m_Data s2) (pos s2) (r @ [CHR 0x00])\<rparr>"
  from assms(4) have second: "vsnprintf_ipos s2 r = (length r, ?s3)"
    by (intro vsnprintf_ipos_fits) simp
  have r3: "remaining ?s3 = length r + 1"
    using assms(4) by (simp add: remaining_def size'_def pos_def)
  from assms(4) have "pos s2 + length r \<le> size' s2"
    unfolding remaining_def by arith
  then have "skip ?s3 (length r) = Inr (?s3\<lparr>m_Pos := pos s2 + length r\<rparr>)"
    by (simp add: skip_def seek_def size'_def pos_def)
  with assms(1,2,3) second r3 show ?thesis
    by (simp add: vformat_def)
qed

lemma vformat_overflow_failed:
  assumes "vsnprintf_ipos s r = (length r, s1)" and "remaining s1 \<le> length r"
    and "overflow s1 (length r + 1) = Inl e"
  shows "vformat s r = Inl e"
  using assms by (simp add: vformat_def)

lemma vformat_fits:
  assumes "length r < remaining s"
  shows "vformat s r = Inr (length r, s\<lparr>m_Data := store (m_Data s) (pos s) (r @ [CHR 0x00]),
                                        m_Pos := pos s + length r\<rparr>)"
proof -
  from assms have "pos s + length r \<le> size' s"
    unfolding remaining_def by arith
  with assms show ?thesis
    by (simp add: vformat_def vsnprintf_ipos_fits skip_def seek_def remaining_def pos_def size'_def)
qed

lemma vformat_grown:
  assumes "consistent s" and "remaining s \<le> length r"
    and "vsnprintf_ipos s r = (length r, s1)" and "overflow s1 (length r + 1) = Inr (k, s2)"
  shows "\<exists>s'. vformat s r = Inr (length r, s') \<and> pos s' = pos s + length r
            \<and> take (length r) (drop (pos s) (m_Data s')) = r
            \<and> take (pos s) (m_Data s') = take (pos s) (m_Data s)"
proof -
  from vsnprintf_ipos_consistent [OF assms(1,3)]
  have c1: "consistent s1" and p1: "pos s1 = pos s" and r1: "remaining s1 = remaining s"
    and k1: "take (pos s) (m_Data s1) = take (pos s) (m_Data s)"
    by simp_all
  from assms(2) r1 have more: "length r + 1 > remaining s1" and short: "remaining s1 \<le> length r"
    by simp_all
  from overflow_grown [OF c1 more assms(4)] p1
  have k: "k = length r + 1" and r2: "remaining s2 = length r + 1" and p2: "pos s2 = pos s"
    and c2: "consistent s2" and k2: "take (length (m_Data s1)) (m_Data s2) = m_Data s1"
    by simp_all
  from c1 p1 have mem1: "pos s \<le> length (m_Data s1)"
    by (simp add: consistent_def pos_def)
  from c2 p2 have mem2: "pos s \<le> length (m_Data s2)"
    by (simp add: consistent_def pos_def)
  have "take (pos s) (m_Data s2) = take (pos s) (take (length (m_Data s1)) (m_Data s2))"
    using mem1 by (simp add: min_def)
  with k2 k1 have prefix: "take (pos s) (m_Data s2) = take (pos s) (m_Data s)"
    by simp
  let ?s4 = "s2\<lparr>m_Data := store (m_Data s2) (pos s2) (r @ [CHR 0x00]), m_Pos := pos s2 + length r\<rparr>"
  from vformat_second [OF assms(3) short assms(4) [unfolded k] r2]
  have result: "vformat s r = Inr (length r, ?s4)" .
  have "take (length r) (drop (pos s) (m_Data ?s4)) = r"
    using mem2 p2 by (simp add: store_def)
  moreover have "take (pos s) (m_Data ?s4) = take (pos s) (m_Data s)"
    using mem2 p2 prefix by (simp add: take_store)
  moreover have "pos ?s4 = pos s + length r"
    using p2 by (simp add: pos_def)
  ultimately show ?thesis
    using result by (intro exI [of _ ?s4]) simp
qed

lemma vformat_not_resizable:
  assumes "consistent s" and "\<not> m_Buffer_resizable s" and "remaining s \<le> length r"
    and "length (m_Data s) < pos s + length r + 1"
  shows "\<exists>s'. vformat s r =
           (if pos s \<le> m_Buffer_size s
            then Inl (stream_bounds_exception ''write'' ''text'' (pos s) (length r + 1)
                        (m_Buffer_size s - pos s), s')
            else Inl (assertion_failed, s'))
         \<and> pos s' = pos s"
proof -
  obtain rv s1 where first: "vsnprintf_ipos s r = (rv, s1)"
    by (cases "vsnprintf_ipos s r")
  from vsnprintf_ipos_consistent [OF assms(1) first] assms(2)
  have rv: "rv = length r" and c1: "consistent s1" and p1: "pos s1 = pos s"
    and r1: "remaining s1 = remaining s" and o1: "\<not> m_Buffer_resizable s1"
    by simp_all
  from vsnprintf_ipos_storage [OF assms(1) first]
  have b1: "m_Buffer_size s1 = m_Buffer_size s" and l1: "length (m_Data s1) = length (m_Data s)"
    by simp_all
  from assms(3) r1 have more: "length r + 1 > remaining s1" and short: "remaining s1 \<le> length r"
    by simp_all
  from overflow_not_resizable [OF c1 o1 more] p1 b1 l1 assms(4)
  have "overflow s1 (length r + 1) =
     (if pos s \<le> m_Buffer_size s
      then Inl (stream_bounds_exception ''write'' ''text'' (pos s) (length r + 1)
                  (m_Buffer_size s - pos s), s1\<lparr>m_Size := m_Buffer_size s\<rparr>)
      else Inl (assertion_failed, s1\<lparr>m_Size := m_Buffer_size s\<rparr>))"
    by simp
  with vformat_overflow_failed [OF first [unfolded rv] short]
  have "vformat s r =
     (if pos s \<le> m_Buffer_size s
      then Inl (stream_bounds_exception ''write'' ''text'' (pos s) (length r + 1)
                  (m_Buffer_size s - pos s), s1\<lparr>m_Size := m_Buffer_size s\<rparr>)
      else Inl (assertion_failed, s1\<lparr>m_Size := m_Buffer_size s\<rparr>))"
    by (simp split: if_splits)
  moreover have "pos (s1\<lparr>m_Size := m_Buffer_size s\<rparr>) = pos s"
    using p1 by (simp add: pos_def)
  ultimately show ?thesis
    by (intro exI [of _ "s1\<lparr>m_Size := m_Buffer_size s\<rparr>"]) simp
qed

lemma vformat_returns:
  assumes "consistent s"
    and "length r < remaining s \<or> m_Buffer_resizable s \<or> pos s + length r + 1 \<le> length (m_Data s)"
  shows "\<exists>s'. vformat s r = Inr (length r, s') \<and> pos s' = pos s + length r
            \<and> take (length r) (drop (pos s) (m_Data s')) = r
            \<and> take (pos s) (m_Data s') = take (pos s) (m_Data s)"
proof (cases "length r < remaining s")
  case True
  from assms(1) have mem: "pos s \<le> length (m_Data s)"
    by (simp add: consistent_def pos_def)
  let ?s' = "s\<lparr>m_Data := store (m_Data s) (pos s) (r @ [CHR 0x00]), m_Pos := pos s + length r\<rparr>"
  have "take (length r) (drop (pos s) (m_Data ?s')) = r"
    using mem by (simp add: store_def)
  moreover have "take (pos s) (m_Data ?s') = take (pos s) (m_Data s)"
    using mem by (simp add: take_store)
  ultimately show ?thesis
    using vformat_fits [OF True] by (intro exI [of _ ?s']) (simp add: pos_def)
next
  case False
  then have short: "remaining s \<le> length r"
    by simp
  obtain rv s1 where first: "vsnprintf_ipos s r = (rv, s1)"
    by (cases "vsnprintf_ipos s r")
  from vsnprintf_ipos_consistent [OF assms(1) first]
  have rv: "rv = length r" and c1: "consistent s1" and p1: "pos s1 = pos s"
    and r1: "remaining s1 = remaining s" and o1: "m_Buffer_resizable s1 = m_Buffer_resizable s"
    by simp_all
  from vsnprintf_ipos_storage [OF assms(1) first]
  have l1: "length (m_Data s1) = length (m_Data s)"
    by simp
  from short r1 have more: "length r + 1 > remaining s1"
    by simp
  have "\<exists>k s2. overflow s1 (length r + 1) = Inr (k, s2)"
  proof (cases "m_Buffer_resizable s")
    case True
    with o1 have "m_Buffer_resizable s1"
      by simp
    from overflow_appended [OF c1 this more] show ?thesis
      by blast
  next
    case resizable: False
    with assms(2) False have "pos s + length r + 1 \<le> length (m_Data s)"
      by simp
    with overflow_not_resizable [OF c1 _ more] resizable o1 p1 l1 show ?thesis
      by simp
  qed
  then obtain k s2 where "overflow s1 (length r + 1) = Inr (k, s2)"
    by blast
  from vformat_grown [OF assms(1) short first [unfolded rv] this] show ?thesis .
qed

lemma vformat_returned:
  assumes "consistent s" and "vformat s r = Inr (rv, s')"
  shows "rv = length r \<and> pos s' = pos s + length r
       \<and> take (length r) (drop (pos s) (m_Data s')) = r
       \<and> take (pos s) (m_Data s') = take (pos s) (m_Data s)"
proof (cases "length r < remaining s \<or> m_Buffer_resizable s
               \<or> pos s + length r + 1 \<le> length (m_Data s)")
  case True
  from vformat_returns [OF assms(1) True] assms(2) show ?thesis
    by auto
next
  case False
  then have "\<not> m_Buffer_resizable s" and "remaining s \<le> length r"
    and "length (m_Data s) < pos s + length r + 1"
    by simp_all
  from vformat_not_resizable [OF assms(1) this] assms(2) show ?thesis
    by (auto split: if_splits)
qed

text \<open>
  The constructors make consistent streams; the example streams are states that the
  operations reach.
\<close>

lemma ostringstream_link_consistent:
  assumes "ostringstream_link (Some blk) (length blk) = Inr s"
  shows "consistent s \<and> \<not> m_Buffer_resizable s"
  using assms
  by (auto simp: ostringstream_link_def consistent_def)

lemma ostringstream_string_consistent:
  "consistent (ostringstream_string v) \<and> m_Buffer_resizable (ostringstream_string v)"
  by (simp add: ostringstream_string_def link_m_Buffer_def consistent_def)

lemma linked_2_written: "ostringstream_write linked_2 ''xy'' = Inr linked_2_full"
  by code_simp

lemma linked_4_flushed_reached:
  "(case ostringstream_link (Some ''abcd'') 4 of
      Inr s0 \<Rightarrow> (case ostringstream_write s0 ''x'' of Inr s1 \<Rightarrow> flush s1)) = linked_4_flushed"
  by code_simp

lemma linked_4_rewritten_reached:
  "(case ostringstream_link (Some ''abcd'') 4 of
      Inr s0 \<Rightarrow> (case ostringstream_write s0 ''x'' of
                  Inr s1 \<Rightarrow> ostringstream_write (flush s1) ''yz'')) = Inr linked_4_rewritten"
  by code_simp

lemma linked_4_refilled_reached:
  "(case ostringstream_link (Some ''abcd'') 4 of
      Inr s0 \<Rightarrow> (case ostringstream_write s0 ''x'' of
                  Inr s1 \<Rightarrow> ostringstream_write (flush s1) ''yzw'')) = Inr linked_4_refilled"
  by code_simp

lemma linked_4_shrunk_reached:
  "ostringstream_write linked_4_flushed ''1234''
     = Inl (stream_bounds_exception ''write'' ''text'' 1 4 0, linked_4_shrunk)"
  by code_simp

section \<open>Flush\<close>

text \<open>
  Claim C8. On a consistent stream \<^verbatim>\<open>flush()\<close> sets the size of the owned buffer to the
  position, so that the buffer holds exactly the bytes before the position; the position
  does not change; and flushing again changes nothing.
\<close>

theorem flush_truncates_idempotent:
  assumes "consistent s"
  shows "m_Buffer_size (flush s) = pos s
       \<and> m_Buffer (flush s) = take (pos s) (m_Data s)
       \<and> pos (flush s) = pos s
       \<and> flush (flush s) = flush s"
  using assms
  by (simp add: flush_def resize_def consistent_def pos_def m_Buffer_def)

theorem flush_truncates_idempotent_witness:
  "consistent hello_abc
   \<and> m_Buffer_size (flush hello_abc) = 3
   \<and> m_Buffer (flush hello_abc) = ''abc''
   \<and> pos (flush hello_abc) = 3
   \<and> flush (flush hello_abc) = flush hello_abc"
proof -
  have c: "consistent hello_abc"
    by code_simp
  have "pos hello_abc = 3" and "take 3 (m_Data hello_abc) = ''abc''"
    by code_simp+
  with flush_truncates_idempotent [OF c] c show ?thesis
    by simp
qed

section \<open>Raw writes that do not fit\<close>

text \<open>
  Claim C9. When \<^verbatim>\<open>ostringstream::write (buffer, size)\<close> ends with the bounds exception,
  the position of the stream is the one before the call and no byte of the memory has
  changed. In the instance below the stream had been flushed, so the failed growth has
  linked the view to the shorter buffer; position and bytes are the old ones all the same.
\<close>

theorem write_bounds_failure_atomic:
  assumes "ostringstream_write s buffer = Inl (stream_bounds_exception op ty p n r, s')"
  shows "pos s' = pos s \<and> m_Data s' = m_Data s"
proof (cases "remaining s < length buffer")
  case True
  show ?thesis
  proof (cases "overflow s (length buffer)")
    case (Inl f)
    with True assms have "overflow s (length buffer) = Inl (stream_bounds_exception op ty p n r, s')"
      by (simp add: ostringstream_write_def)
    from overflow_bounds_state [OF this] show ?thesis by simp
  next
    case (Inr g)
    obtain k s1 where g: "g = (k, s1)" by (cases g)
    with Inr True assms have "ostream_write s1 buffer = Inl (stream_bounds_exception op ty p n r, s')"
      by (simp add: ostringstream_write_def split: if_splits)
    from ostream_write_Inl [OF this] show ?thesis by simp
  qed
next
  case False
  with assms have "ostream_write s buffer = Inl (stream_bounds_exception op ty p n r, s')"
    by (simp add: ostringstream_write_def)
  from ostream_write_Inl [OF this] show ?thesis by simp
qed

theorem write_bounds_failure_atomic_witness:
  "ostringstream_write linked_4_flushed ''12345''
     = Inl (stream_bounds_exception ''write'' ''text'' 1 5 0, linked_4_flushed\<lparr>m_Size := 1\<rparr>)
   \<and> pos (linked_4_flushed\<lparr>m_Size := 1\<rparr>) = pos linked_4_flushed
   \<and> m_Data (linked_4_flushed\<lparr>m_Size := 1\<rparr>) = m_Data linked_4_flushed"
proof -
  have raised: "ostringstream_write linked_4_flushed ''12345''
     = Inl (stream_bounds_exception ''write'' ''text'' 1 5 0, linked_4_flushed\<lparr>m_Size := 1\<rparr>)"
    by code_simp
  from write_bounds_failure_atomic [OF raised] raised show ?thesis
    by simp
qed

text \<open>
  Claim C1 does not hold as stated: a raw write of three bytes to a stream bound to a region
  of two bytes does not return silently. The growth protocol throws the bounds exception
  before \<^verbatim>\<open>write\<close> can test its result.
\<close>

theorem raw_write_not_silent:
  "ostringstream_write linked_2 ''xyz''
     = Inl (stream_bounds_exception ''write'' ''text'' 0 3 2, linked_2)
   \<and> ostringstream_write linked_2 ''xyz'' \<noteq> Inr linked_2"
proof -
  have "ostringstream_write linked_2 ''xyz''
     = Inl (stream_bounds_exception ''write'' ''text'' 0 3 2, linked_2)"
    by code_simp
  then show ?thesis by simp
qed

text \<open>
  Claim C1, as the code has it, for every consistent stream. A raw write that returns has
  stored all its bytes at the old position and advanced the position by their number: it
  never returns without writing. On a stream whose buffer is bound to an external region,
  a write of more bytes than remain that does not fit the region (position plus size
  exceeds the size of the region), and likewise the one-character \<^verbatim>\<open>iwrite\<close> at the end
  of the region, ends in the growth protocol: the view is linked to the size of the
  buffer and, when the position lies within the buffer, the bounds exception is thrown
  with the operation \<open>''write''\<close>, the description \<open>''text''\<close>, the position, the requested
  size and the space then remaining, position and bytes being the old ones; when a flush
  has left the buffer shorter than the position, the assertion of \<^verbatim>\<open>seek\<close> fails
  instead. \<^verbatim>\<open>write_buffer\<close> first fills the remaining bytes and ends in the same way for
  the rest; \<^verbatim>\<open>vformat\<close> ends in the same way with the position unchanged. The failure is
  not particular to the formatted paths.
\<close>

theorem raw_write_signals_bounds_failure:
  assumes "consistent s"
  shows "(\<forall>s'. ostringstream_write s buffer = Inr s' \<longrightarrow>
            pos s' = pos s + length buffer
            \<and> take (length buffer) (drop (pos s) (m_Data s')) = buffer
            \<and> take (pos s) (m_Data s') = take (pos s) (m_Data s))
       \<and> (\<not> m_Buffer_resizable s \<and> remaining s < length buffer
            \<and> length (m_Data s) < pos s + length buffer \<longrightarrow>
            ostringstream_write s buffer =
              (if pos s \<le> m_Buffer_size s
               then Inl (stream_bounds_exception ''write'' ''text'' (pos s) (length buffer)
                           (m_Buffer_size s - pos s), s\<lparr>m_Size := m_Buffer_size s\<rparr>)
               else Inl (assertion_failed, s\<lparr>m_Size := m_Buffer_size s\<rparr>)))
       \<and> (\<not> m_Buffer_resizable s \<and> remaining s = 0 \<and> length (m_Data s) < pos s + 1 \<longrightarrow>
            ostringstream_iwrite_uint8 c_DefaultAlignment s c =
              (if pos s \<le> m_Buffer_size s
               then Inl (stream_bounds_exception ''write'' ''text'' (pos s) 1
                           (m_Buffer_size s - pos s), s\<lparr>m_Size := m_Buffer_size s\<rparr>)
               else Inl (assertion_failed, s\<lparr>m_Size := m_Buffer_size s\<rparr>)))
       \<and> (\<not> m_Buffer_resizable s \<and> remaining s < length buffer
            \<and> length (m_Data s) < pos s + length buffer \<longrightarrow>
            write_buffer s buffer =
              (if size' s \<le> m_Buffer_size s
               then Inl (stream_bounds_exception ''write'' ''text'' (size' s)
                           (length buffer - remaining s) (m_Buffer_size s - size' s),
                         s\<lparr>m_Data := store (m_Data s) (pos s) (take (remaining s) buffer),
                           m_Pos := size' s, m_Size := m_Buffer_size s\<rparr>)
               else Inl (assertion_failed,
                         s\<lparr>m_Data := store (m_Data s) (pos s) (take (remaining s) buffer),
                           m_Pos := size' s, m_Size := m_Buffer_size s\<rparr>)))
       \<and> (\<not> m_Buffer_resizable s \<and> remaining s \<le> length rendered
            \<and> length (m_Data s) < pos s + length rendered + 1 \<longrightarrow>
            (\<exists>s'. vformat s rendered =
                     (if pos s \<le> m_Buffer_size s
                      then Inl (stream_bounds_exception ''write'' ''text'' (pos s)
                                  (length rendered + 1) (m_Buffer_size s - pos s), s')
                      else Inl (assertion_failed, s'))
                 \<and> pos s' = pos s))"
proof (intro conjI allI impI)
  fix s' assume "ostringstream_write s buffer = Inr s'"
  from ostringstream_write_returned [OF assms this]
  show "pos s' = pos s + length buffer"
    and "take (length buffer) (drop (pos s) (m_Data s')) = buffer"
    and "take (pos s) (m_Data s') = take (pos s) (m_Data s)"
    by simp_all
next
  assume "\<not> m_Buffer_resizable s \<and> remaining s < length buffer
            \<and> length (m_Data s) < pos s + length buffer"
  then have fixed: "\<not> m_Buffer_resizable s" and more: "length buffer > remaining s"
    and far: "length (m_Data s) < pos s + length buffer"
    by simp_all
  from overflow_not_resizable [OF assms fixed more] far more
  show "ostringstream_write s buffer =
          (if pos s \<le> m_Buffer_size s
           then Inl (stream_bounds_exception ''write'' ''text'' (pos s) (length buffer)
                       (m_Buffer_size s - pos s), s\<lparr>m_Size := m_Buffer_size s\<rparr>)
           else Inl (assertion_failed, s\<lparr>m_Size := m_Buffer_size s\<rparr>))"
    by (simp add: ostringstream_write_def)
next
  assume "\<not> m_Buffer_resizable s \<and> remaining s = 0 \<and> length (m_Data s) < pos s + 1"
  then have fixed: "\<not> m_Buffer_resizable s" and none: "remaining s = 0"
    and far: "length (m_Data s) < pos s + 1"
    by simp_all
  from none have "1 > remaining s"
    by simp
  from overflow_not_resizable [OF assms fixed this] far none
  show "ostringstream_iwrite_uint8 c_DefaultAlignment s c =
          (if pos s \<le> m_Buffer_size s
           then Inl (stream_bounds_exception ''write'' ''text'' (pos s) 1
                       (m_Buffer_size s - pos s), s\<lparr>m_Size := m_Buffer_size s\<rparr>)
           else Inl (assertion_failed, s\<lparr>m_Size := m_Buffer_size s\<rparr>))"
    by (simp add: ostringstream_iwrite_uint8_def)
next
  assume "\<not> m_Buffer_resizable s \<and> remaining s < length buffer
            \<and> length (m_Data s) < pos s + length buffer"
  then have "\<not> m_Buffer_resizable s" and "remaining s < length buffer"
    and "length (m_Data s) < pos s + length buffer"
    by simp_all
  with assms show "write_buffer s buffer =
          (if size' s \<le> m_Buffer_size s
           then Inl (stream_bounds_exception ''write'' ''text'' (size' s)
                       (length buffer - remaining s) (m_Buffer_size s - size' s),
                     s\<lparr>m_Data := store (m_Data s) (pos s) (take (remaining s) buffer),
                       m_Pos := size' s, m_Size := m_Buffer_size s\<rparr>)
           else Inl (assertion_failed,
                     s\<lparr>m_Data := store (m_Data s) (pos s) (take (remaining s) buffer),
                       m_Pos := size' s, m_Size := m_Buffer_size s\<rparr>))"
    by (rule write_buffer_not_resizable)
next
  assume "\<not> m_Buffer_resizable s \<and> remaining s \<le> length rendered
            \<and> length (m_Data s) < pos s + length rendered + 1"
  then have "\<not> m_Buffer_resizable s" and "remaining s \<le> length rendered"
    and "length (m_Data s) < pos s + length rendered + 1"
    by simp_all
  with assms show "\<exists>s'. vformat s rendered =
                     (if pos s \<le> m_Buffer_size s
                      then Inl (stream_bounds_exception ''write'' ''text'' (pos s)
                                  (length rendered + 1) (m_Buffer_size s - pos s), s')
                      else Inl (assertion_failed, s'))
                 \<and> pos s' = pos s"
    by (rule vformat_not_resizable)
qed

theorem raw_write_signals_bounds_failure_witness:
  "consistent linked_2 \<and> ostringstream_write linked_2 ''xy'' = Inr linked_2_full
   \<and> pos linked_2_full = pos linked_2 + length ''xy''
   \<and> take (length ''xy'') (drop (pos linked_2) (m_Data linked_2_full)) = ''xy''
   \<and> consistent linked_4_flushed \<and> \<not> m_Buffer_resizable linked_4_flushed
   \<and> remaining linked_4_flushed < length ''1234''
   \<and> length (m_Data linked_4_flushed) < pos linked_4_flushed + length ''1234''
   \<and> pos linked_4_flushed \<le> m_Buffer_size linked_4_flushed
   \<and> ostringstream_write linked_4_flushed ''1234''
        = Inl (stream_bounds_exception ''write'' ''text'' 1 4 0, linked_4_flushed\<lparr>m_Size := 1\<rparr>)
   \<and> (\<exists>s'. vformat linked_4_flushed ''1234''
               = Inl (stream_bounds_exception ''write'' ''text'' (pos linked_4_flushed)
                        (length ''1234'' + 1)
                        (m_Buffer_size linked_4_flushed - pos linked_4_flushed), s')
          \<and> pos s' = pos linked_4_flushed)
   \<and> consistent linked_4_rewritten \<and> \<not> m_Buffer_resizable linked_4_rewritten
   \<and> remaining linked_4_rewritten < length ''ab''
   \<and> length (m_Data linked_4_rewritten) < pos linked_4_rewritten + length ''ab''
   \<and> m_Buffer_size linked_4_rewritten < pos linked_4_rewritten
   \<and> m_Buffer_size linked_4_rewritten < size' linked_4_rewritten
   \<and> ostringstream_write linked_4_rewritten ''ab''
        = Inl (assertion_failed, linked_4_rewritten\<lparr>m_Size := 1\<rparr>)
   \<and> write_buffer linked_4_rewritten ''ab''
        = Inl (assertion_failed, linked_4_rewritten\<lparr>m_Data := ''xyza'', m_Pos := 4, m_Size := 1\<rparr>)
   \<and> consistent linked_2_full \<and> \<not> m_Buffer_resizable linked_2_full
   \<and> remaining linked_2_full = 0 \<and> length (m_Data linked_2_full) < pos linked_2_full + 1
   \<and> pos linked_2_full \<le> m_Buffer_size linked_2_full
   \<and> ostringstream_iwrite_uint8 4 linked_2_full CHR ''z''
        = Inl (stream_bounds_exception ''write'' ''text'' 2 1 0, linked_2_full)
   \<and> size' linked_2 \<le> m_Buffer_size linked_2
   \<and> write_buffer linked_2 ''xyz''
        = Inl (stream_bounds_exception ''write'' ''text'' 2 1 0, linked_2_full)
   \<and> consistent linked_4_refilled \<and> \<not> m_Buffer_resizable linked_4_refilled
   \<and> remaining linked_4_refilled = 0
   \<and> length (m_Data linked_4_refilled) < pos linked_4_refilled + 1
   \<and> m_Buffer_size linked_4_refilled < pos linked_4_refilled
   \<and> ostringstream_iwrite_uint8 4 linked_4_refilled CHR ''z''
        = Inl (assertion_failed, linked_4_refilled\<lparr>m_Size := 1\<rparr>)"
proof -
  have c2: "consistent linked_2" and w2: "ostringstream_write linked_2 ''xy'' = Inr linked_2_full"
    by code_simp+
  from raw_write_signals_bounds_failure [OF c2, of "''xy''"] w2
  have returned: "pos linked_2_full = pos linked_2 + length ''xy''
      \<and> take (length ''xy'') (drop (pos linked_2) (m_Data linked_2_full)) = ''xy''"
    by blast
  have cf: "consistent linked_4_flushed" and of: "\<not> m_Buffer_resizable linked_4_flushed"
    and rf: "remaining linked_4_flushed < length ''1234''"
    and lf: "length (m_Data linked_4_flushed) < pos linked_4_flushed + length ''1234''"
    and pf: "pos linked_4_flushed \<le> m_Buffer_size linked_4_flushed"
    by code_simp+
  have wf: "ostringstream_write linked_4_flushed ''1234''
        = Inl (stream_bounds_exception ''write'' ''text'' 1 4 0, linked_4_flushed\<lparr>m_Size := 1\<rparr>)"
    by code_simp
  from rf lf have rv: "remaining linked_4_flushed \<le> length ''1234''"
    and lv: "length (m_Data linked_4_flushed) < pos linked_4_flushed + length ''1234'' + 1"
    by simp_all
  from raw_write_signals_bounds_failure [OF cf, of _ _ _ "''1234''"] of rv lv
  have "\<exists>s'. vformat linked_4_flushed ''1234'' =
           (if pos linked_4_flushed \<le> m_Buffer_size linked_4_flushed
            then Inl (stream_bounds_exception ''write'' ''text'' (pos linked_4_flushed)
                        (length ''1234'' + 1)
                        (m_Buffer_size linked_4_flushed - pos linked_4_flushed), s')
            else Inl (assertion_failed, s'))
         \<and> pos s' = pos linked_4_flushed"
    by blast
  then have vf: "\<exists>s'. vformat linked_4_flushed ''1234''
               = Inl (stream_bounds_exception ''write'' ''text'' (pos linked_4_flushed)
                        (length ''1234'' + 1)
                        (m_Buffer_size linked_4_flushed - pos linked_4_flushed), s')
          \<and> pos s' = pos linked_4_flushed"
    by (simp only: pf if_True)
  have cr: "consistent linked_4_rewritten" and or: "\<not> m_Buffer_resizable linked_4_rewritten"
    and rr: "remaining linked_4_rewritten < length ''ab''"
    and lr: "length (m_Data linked_4_rewritten) < pos linked_4_rewritten + length ''ab''"
    and pr: "m_Buffer_size linked_4_rewritten < pos linked_4_rewritten"
    and sr: "m_Buffer_size linked_4_rewritten < size' linked_4_rewritten"
    by code_simp+
  have wr: "ostringstream_write linked_4_rewritten ''ab''
        = Inl (assertion_failed, linked_4_rewritten\<lparr>m_Size := 1\<rparr>)"
    and br: "write_buffer linked_4_rewritten ''ab''
        = Inl (assertion_failed, linked_4_rewritten\<lparr>m_Data := ''xyza'', m_Pos := 4, m_Size := 1\<rparr>)"
    by code_simp+
  have c2f: "consistent linked_2_full" and o2f: "\<not> m_Buffer_resizable linked_2_full"
    and r2f: "remaining linked_2_full = 0"
    and l2f: "length (m_Data linked_2_full) < pos linked_2_full + 1"
    and p2f: "pos linked_2_full \<le> m_Buffer_size linked_2_full"
    by code_simp+
  have i2f: "ostringstream_iwrite_uint8 4 linked_2_full CHR ''z''
        = Inl (stream_bounds_exception ''write'' ''text'' 2 1 0, linked_2_full)"
    and s2: "size' linked_2 \<le> m_Buffer_size linked_2"
    and b2: "write_buffer linked_2 ''xyz''
        = Inl (stream_bounds_exception ''write'' ''text'' 2 1 0, linked_2_full)"
    by code_simp+
  have c4: "consistent linked_4_refilled" and o4: "\<not> m_Buffer_resizable linked_4_refilled"
    and r4: "remaining linked_4_refilled = 0"
    and l4: "length (m_Data linked_4_refilled) < pos linked_4_refilled + 1"
    and p4: "m_Buffer_size linked_4_refilled < pos linked_4_refilled"
    by code_simp+
  have i4: "ostringstream_iwrite_uint8 4 linked_4_refilled CHR ''z''
        = Inl (assertion_failed, linked_4_refilled\<lparr>m_Size := 1\<rparr>)"
    by code_simp
  from c2 w2 returned cf of rf lf pf wf vf cr or rr lr pr sr wr br c2f o2f r2f l2f p2f i2f s2 b2
    c4 o4 r4 l4 p4 i4
  show ?thesis
    by (intro conjI) (erule conjunct1 conjunct2 | assumption)+
qed

section \<open>Growth of the owned buffer\<close>

text \<open>
  Claim C2. On a consistent stream that owns its buffer, a request of \<open>n\<close> bytes with
  \<open>n\<close> above \<^verbatim>\<open>remaining()\<close> makes buffer and view \<open>position + n\<close> bytes long, keeps every
  byte of the old storage, keeps the position and returns the new \<^verbatim>\<open>remaining()\<close>, which
  is \<open>n\<close>. Hence \<^verbatim>\<open>write_buffer\<close> of any bytes returns with all of them in the buffer
  from the old position on, the bytes before them unchanged, the position behind them and
  the view at least that long.
\<close>

theorem overflow_grows_owned_buffer:
  assumes "consistent s" and "m_Buffer_resizable s"
  shows "(n > remaining s \<longrightarrow>
            (\<exists>s'. overflow s n = Inr (remaining s', s') \<and> remaining s' = n
                 \<and> m_Buffer_size s' = pos s + n \<and> size' s' = pos s + n \<and> pos s' = pos s
                 \<and> take (length (m_Data s)) (m_Data s') = m_Data s))
       \<and> (\<exists>s''. write_buffer s buf = Inr s'' \<and> pos s'' = pos s + length buf
                 \<and> take (length buf) (drop (pos s) (m_Data s'')) = buf
                 \<and> take (pos s) (m_Data s'') = take (pos s) (m_Data s)
                 \<and> pos s + length buf \<le> size' s'')"
proof (intro conjI impI)
  assume "n > remaining s"
  from overflow_appended [OF assms this]
  obtain s1 where "overflow s n = Inr (n, s1)" and "appended s [] s1" and "remaining s1 = n"
    and "size' s1 = pos s + n" and "m_Buffer_size s1 = pos s + n"
    and "take (length (m_Data s)) (m_Data s1) = m_Data s"
    by blast
  then show "\<exists>s'. overflow s n = Inr (remaining s', s') \<and> remaining s' = n
                 \<and> m_Buffer_size s' = pos s + n \<and> size' s' = pos s + n \<and> pos s' = pos s
                 \<and> take (length (m_Data s)) (m_Data s') = m_Data s"
    by (intro exI [of _ s1]) (simp add: appended_def)
next
  from write_buffer_resizable [OF assms, of buf]
  obtain s2 where w: "write_buffer s buf = Inr s2" and a: "appended s buf s2"
    by blast
  from a have "pos s2 \<le> size' s2"
    by (simp add: appended_def consistent_def pos_def size'_def)
  with a have "pos s + length buf \<le> size' s2"
    by (simp add: appended_def)
  with w a show "\<exists>s''. write_buffer s buf = Inr s'' \<and> pos s'' = pos s + length buf
                 \<and> take (length buf) (drop (pos s) (m_Data s'')) = buf
                 \<and> take (pos s) (m_Data s'') = take (pos s) (m_Data s)
                 \<and> pos s + length buf \<le> size' s''"
    by (intro exI [of _ s2]) (simp add: appended_def)
qed

theorem overflow_grows_owned_buffer_witness:
  "consistent owned_2 \<and> m_Buffer_resizable owned_2 \<and> 10 > remaining owned_2
   \<and> overflow owned_2 10
        = Inr (10, owned_2\<lparr>m_Data := ''zz'' @ replicate 8 (CHR 0x00), m_Size := 10, m_Buffer_size := 10\<rparr>)
   \<and> write_buffer owned_2 (replicate 10 CHR ''A'')
        = Inr (owned_2\<lparr>m_Data := replicate 10 CHR ''A'', m_Size := 10, m_Pos := 10, m_Buffer_size := 10\<rparr>)
   \<and> (\<exists>s''. write_buffer owned_2 (replicate 10 CHR ''A'') = Inr s'' \<and> pos s'' = 10
         \<and> take 10 (m_Data s'') = replicate 10 CHR ''A'' \<and> 10 \<le> size' s'')"
proof -
  have c: "consistent owned_2" and o: "m_Buffer_resizable owned_2" and r: "10 > remaining owned_2"
    and p: "pos owned_2 = 0"
    by code_simp+
  have g: "overflow owned_2 10
        = Inr (10, owned_2\<lparr>m_Data := ''zz'' @ replicate 8 (CHR 0x00), m_Size := 10, m_Buffer_size := 10\<rparr>)"
    by code_simp
  have w: "write_buffer owned_2 (replicate 10 CHR ''A'')
        = Inr (owned_2\<lparr>m_Data := replicate 10 CHR ''A'', m_Size := 10, m_Pos := 10, m_Buffer_size := 10\<rparr>)"
    by code_simp
  from overflow_grows_owned_buffer [OF c o, of 10 "replicate 10 CHR ''A''"] p
  have "\<exists>s''. write_buffer owned_2 (replicate 10 CHR ''A'') = Inr s'' \<and> pos s'' = 10
         \<and> take 10 (m_Data s'') = replicate 10 CHR ''A'' \<and> 10 \<le> size' s''"
    by auto
  with c o r g w show ?thesis
    by blast
qed

section \<open>Formatted writes\<close>

text \<open>
  Claim C3 does not hold as stated: when the text is longer than the capacity that is
  finally there, \<^verbatim>\<open>vformat\<close> does not write \<^verbatim>\<open>remaining()\<close> bytes and advance by them.
  On a stream bound to two bytes, a text of five characters ends with the bounds exception
  and the position still 0.
\<close>

theorem vformat_does_not_truncate:
  "vformat linked_2 ''hello''
     = Inl (stream_bounds_exception ''write'' ''text'' 0 6 2, linked_2\<lparr>m_Data := [CHR ''h'', CHR 0x00]\<rparr>)
   \<and> pos (linked_2\<lparr>m_Data := [CHR ''h'', CHR 0x00]\<rparr>) \<noteq> pos linked_2 + remaining linked_2"
  by code_simp

text \<open>
  Claim C3, as the code has it, for every consistent stream. \<^verbatim>\<open>vformat\<close> renders into
  the remaining space; a text shorter than the remaining space is written with its
  terminator and the position advances by its length. Otherwise the growth protocol is
  asked for the length plus one and, when it returns, the text is rendered once more.
  Every run that returns gives the length of the text, has the whole text in the buffer
  from the old position on and the position advanced by that length: nothing is
  truncated. The run returns when the text is shorter than the remaining space, when the
  buffer can be resized, or when position plus length plus one fits the region the buffer
  is bound to. In every other case it does not return and the position is the old one:
  the growth protocol throws the bounds exception when the position lies within the
  buffer, and fails the assertion of \<^verbatim>\<open>seek\<close> when a flush has left the buffer shorter
  than the position.
\<close>

theorem vformat_advances_or_fails:
  assumes "consistent s"
  shows "(\<forall>rv s'. vformat s r = Inr (rv, s') \<longrightarrow>
            rv = length r \<and> pos s' = pos s + length r
            \<and> take (length r) (drop (pos s) (m_Data s')) = r
            \<and> take (pos s) (m_Data s') = take (pos s) (m_Data s))
       \<and> (length r < remaining s \<longrightarrow>
            vformat s r = Inr (length r, s\<lparr>m_Data := store (m_Data s) (pos s) (r @ [CHR 0x00]),
                                           m_Pos := pos s + length r\<rparr>))
       \<and> (length r < remaining s \<or> m_Buffer_resizable s
            \<or> pos s + length r + 1 \<le> length (m_Data s) \<longrightarrow>
            (\<exists>s'. vformat s r = Inr (length r, s')))
       \<and> (remaining s \<le> length r \<and> \<not> m_Buffer_resizable s
            \<and> length (m_Data s) < pos s + length r + 1 \<longrightarrow>
            (\<exists>s'. vformat s r =
                     (if pos s \<le> m_Buffer_size s
                      then Inl (stream_bounds_exception ''write'' ''text'' (pos s)
                                  (length r + 1) (m_Buffer_size s - pos s), s')
                      else Inl (assertion_failed, s'))
                 \<and> pos s' = pos s))"
proof (intro conjI allI impI)
  fix rv s' assume "vformat s r = Inr (rv, s')"
  from vformat_returned [OF assms this]
  show "rv = length r" and "pos s' = pos s + length r"
    and "take (length r) (drop (pos s) (m_Data s')) = r"
    and "take (pos s) (m_Data s') = take (pos s) (m_Data s)"
    by simp_all
next
  assume "length r < remaining s"
  then show "vformat s r = Inr (length r, s\<lparr>m_Data := store (m_Data s) (pos s) (r @ [CHR 0x00]),
                                           m_Pos := pos s + length r\<rparr>)"
    by (rule vformat_fits)
next
  assume "length r < remaining s \<or> m_Buffer_resizable s
            \<or> pos s + length r + 1 \<le> length (m_Data s)"
  from vformat_returns [OF assms this] show "\<exists>s'. vformat s r = Inr (length r, s')"
    by blast
next
  assume "remaining s \<le> length r \<and> \<not> m_Buffer_resizable s
            \<and> length (m_Data s) < pos s + length r + 1"
  then have "\<not> m_Buffer_resizable s" and "remaining s \<le> length r"
    and "length (m_Data s) < pos s + length r + 1"
    by simp_all
  with assms show "\<exists>s'. vformat s r =
                     (if pos s \<le> m_Buffer_size s
                      then Inl (stream_bounds_exception ''write'' ''text'' (pos s)
                                  (length r + 1) (m_Buffer_size s - pos s), s')
                      else Inl (assertion_failed, s'))
                 \<and> pos s' = pos s"
    by (rule vformat_not_resizable)
qed

theorem vformat_advances_or_fails_witness:
  "consistent linked_4 \<and> length ''hi'' < remaining linked_4
   \<and> vformat linked_4 ''hi''
        = Inr (2, linked_4\<lparr>m_Data := [CHR ''h'', CHR ''i'', CHR 0x00, CHR ''d''], m_Pos := 2\<rparr>)
   \<and> pos (linked_4\<lparr>m_Data := [CHR ''h'', CHR ''i'', CHR 0x00, CHR ''d''], m_Pos := 2\<rparr>)
        = pos linked_4 + length ''hi''
   \<and> consistent owned_2 \<and> m_Buffer_resizable owned_2
   \<and> vformat owned_2 ''hello''
        = Inr (5, owned_2\<lparr>m_Data := ''hello'' @ [CHR 0x00], m_Size := 6, m_Pos := 5, m_Buffer_size := 6\<rparr>)
   \<and> consistent linked_4_shrunk \<and> \<not> m_Buffer_resizable linked_4_shrunk
   \<and> pos linked_4_shrunk + length ''Q'' + 1 \<le> length (m_Data linked_4_shrunk)
   \<and> vformat linked_4_shrunk ''Q''
        = Inr (1, linked_4_shrunk\<lparr>m_Data := [CHR ''x'', CHR ''Q'', CHR 0x00, CHR ''d''],
                   m_Size := 3, m_Pos := 2, m_Buffer_size := 3\<rparr>)
   \<and> consistent linked_4_flushed \<and> remaining linked_4_flushed \<le> length ''abcd''
   \<and> \<not> m_Buffer_resizable linked_4_flushed
   \<and> length (m_Data linked_4_flushed) < pos linked_4_flushed + length ''abcd'' + 1
   \<and> pos linked_4_flushed \<le> m_Buffer_size linked_4_flushed
   \<and> vformat linked_4_flushed ''abcd''
        = Inl (stream_bounds_exception ''write'' ''text'' 1 5 0,
               linked_4_flushed\<lparr>m_Data := [CHR ''x'', CHR ''a'', CHR ''b'', CHR 0x00], m_Size := 1\<rparr>)
   \<and> consistent linked_4_rewritten \<and> remaining linked_4_rewritten \<le> length ''abc''
   \<and> \<not> m_Buffer_resizable linked_4_rewritten
   \<and> length (m_Data linked_4_rewritten) < pos linked_4_rewritten + length ''abc'' + 1
   \<and> m_Buffer_size linked_4_rewritten < pos linked_4_rewritten
   \<and> vformat linked_4_rewritten ''abc''
        = Inl (assertion_failed,
               linked_4_rewritten\<lparr>m_Data := [CHR ''x'', CHR ''y'', CHR ''z'', CHR 0x00], m_Size := 1\<rparr>)"
proof -
  have c4: "consistent linked_4" and f4: "length ''hi'' < remaining linked_4"
    by code_simp+
  have v4: "vformat linked_4 ''hi''
      = Inr (2, linked_4\<lparr>m_Data := [CHR ''h'', CHR ''i'', CHR 0x00, CHR ''d''], m_Pos := 2\<rparr>)"
    by code_simp
  from vformat_advances_or_fails [OF c4, of "''hi''"] v4
  have a4: "pos (linked_4\<lparr>m_Data := [CHR ''h'', CHR ''i'', CHR 0x00, CHR ''d''], m_Pos := 2\<rparr>)
        = pos linked_4 + length ''hi''"
    by blast
  have co: "consistent owned_2" and oo: "m_Buffer_resizable owned_2"
    by code_simp+
  have vo: "vformat owned_2 ''hello''
      = Inr (5, owned_2\<lparr>m_Data := ''hello'' @ [CHR 0x00], m_Size := 6, m_Pos := 5, m_Buffer_size := 6\<rparr>)"
    by code_simp
  have cs: "consistent linked_4_shrunk" and os: "\<not> m_Buffer_resizable linked_4_shrunk"
    and ls: "pos linked_4_shrunk + length ''Q'' + 1 \<le> length (m_Data linked_4_shrunk)"
    by code_simp+
  have vs: "vformat linked_4_shrunk ''Q''
        = Inr (1, linked_4_shrunk\<lparr>m_Data := [CHR ''x'', CHR ''Q'', CHR 0x00, CHR ''d''],
                   m_Size := 3, m_Pos := 2, m_Buffer_size := 3\<rparr>)"
    by code_simp
  have cf: "consistent linked_4_flushed" and rf: "remaining linked_4_flushed \<le> length ''abcd''"
    and of: "\<not> m_Buffer_resizable linked_4_flushed"
    and lf: "length (m_Data linked_4_flushed) < pos linked_4_flushed + length ''abcd'' + 1"
    and pf: "pos linked_4_flushed \<le> m_Buffer_size linked_4_flushed"
    by code_simp+
  have vf: "vformat linked_4_flushed ''abcd''
        = Inl (stream_bounds_exception ''write'' ''text'' 1 5 0,
               linked_4_flushed\<lparr>m_Data := [CHR ''x'', CHR ''a'', CHR ''b'', CHR 0x00], m_Size := 1\<rparr>)"
    by code_simp
  have cr: "consistent linked_4_rewritten" and rr: "remaining linked_4_rewritten \<le> length ''abc''"
    and or: "\<not> m_Buffer_resizable linked_4_rewritten"
    and lr: "length (m_Data linked_4_rewritten) < pos linked_4_rewritten + length ''abc'' + 1"
    and pr: "m_Buffer_size linked_4_rewritten < pos linked_4_rewritten"
    by code_simp+
  have vr: "vformat linked_4_rewritten ''abc''
        = Inl (assertion_failed,
               linked_4_rewritten\<lparr>m_Data := [CHR ''x'', CHR ''y'', CHR ''z'', CHR 0x00], m_Size := 1\<rparr>)"
    by code_simp
  from c4 f4 v4 a4 co oo vo cs os ls vs cf rf of lf pf vf cr rr or lr pr vr
  show ?thesis
    by (intro conjI)
qed

text \<open>
  Claim C10. \<^verbatim>\<open>sprintf_iwrite\<close> hands at most 63 bytes to \<^verbatim>\<open>write_buffer\<close>: the first 63
  characters of the rendering, whatever its length. On a consistent stream that owns its
  buffer the position advances by the lesser of the length of the rendering and 63.
\<close>

theorem sprintf_iwrite_forwards_at_most_63:
  "snd (sprintf_buffer printf s v typestr is_integer) \<le> 63
   \<and> sprintf_iwrite printf s v typestr is_integer
        = write_buffer s (take 63 (printf (fmtstring s typestr is_integer) v))
   \<and> (consistent s \<and> m_Buffer_resizable s \<longrightarrow>
        (\<exists>s'. sprintf_iwrite printf s v typestr is_integer = Inr s'
             \<and> pos s' = pos s + min (length (printf (fmtstring s typestr is_integer) v)) 63
             \<and> take (min (length (printf (fmtstring s typestr is_integer) v)) 63) (drop (pos s) (m_Data s'))
                 = take 63 (printf (fmtstring s typestr is_integer) v)))"
proof (intro conjI impI)
  show "snd (sprintf_buffer printf s v typestr is_integer) \<le> 63"
    by (simp add: sprintf_buffer_eq)
next
  show forwarded: "sprintf_iwrite printf s v typestr is_integer
        = write_buffer s (take 63 (printf (fmtstring s typestr is_integer) v))"
    by (simp only: sprintf_iwrite_def sprintf_buffer_eq prod.case Let_def take_min_take)
  assume "consistent s \<and> m_Buffer_resizable s"
  then have c: "consistent s" and o: "m_Buffer_resizable s"
    by simp_all
  let ?r = "printf (fmtstring s typestr is_integer) v"
  from write_buffer_resizable [OF c o, of "take 63 ?r"]
  obtain s' where w: "write_buffer s (take 63 ?r) = Inr s'" and a: "appended s (take 63 ?r) s'"
    by blast
  have len: "length (take 63 ?r) = min (length ?r) 63"
    by simp
  from a have "pos s' = pos s + min (length ?r) 63"
    and "take (min (length ?r) 63) (drop (pos s) (m_Data s')) = take 63 ?r"
    unfolding appended_def len by simp_all
  with w forwarded
  show "\<exists>s'. sprintf_iwrite printf s v typestr is_integer = Inr s'
             \<and> pos s' = pos s + min (length ?r) 63
             \<and> take (min (length ?r) 63) (drop (pos s) (m_Data s')) = take 63 ?r"
    by (intro exI [of _ s']) simp
qed

theorem sprintf_iwrite_forwards_at_most_63_witness:
  "consistent (ostringstream_string '''') \<and> m_Buffer_resizable (ostringstream_string '''')
   \<and> length (sevens (fmtstring (ostringstream_string '''') ''d'' True) 7) = 100
   \<and> snd (sprintf_buffer sevens (ostringstream_string '''') 7 ''d'' True) \<le> 63
   \<and> sprintf_iwrite sevens (ostringstream_string '''') 7 ''d'' True
        = Inr ((ostringstream_string '''')\<lparr>m_Data := replicate 63 CHR ''7'', m_Size := 63,
                 m_Pos := 63, m_Buffer_size := 63\<rparr>)"
proof -
  have c: "consistent (ostringstream_string '''')" and o: "m_Buffer_resizable (ostringstream_string '''')"
    by code_simp+
  have l: "length (sevens (fmtstring (ostringstream_string '''') ''d'' True) 7) = 100"
    by (simp add: sevens_def)
  have w: "write_buffer (ostringstream_string '''') (replicate 63 CHR ''7'')
        = Inr ((ostringstream_string '''')\<lparr>m_Data := replicate 63 CHR ''7'', m_Size := 63,
                 m_Pos := 63, m_Buffer_size := 63\<rparr>)"
    by code_simp
  have t: "take 63 (sevens (fmtstring (ostringstream_string '''') ''d'' True) 7) = replicate 63 CHR ''7''"
    by (simp add: sevens_def)
  from sprintf_iwrite_forwards_at_most_63 [of sevens "ostringstream_string ''''" 7 "''d''" True] c o l w t
  show ?thesis
    by simp
qed

section \<open>Format strings\<close>

text \<open>
  \<^verbatim>\<open>encode_dec\<close> appends the decimal numeral of its argument back to front.
\<close>

lemma encode_dec_reversed: "encode_dec fmt w = fmt @ rev (decimal_numeral (unat w))"
proof (induction fmt w rule: encode_dec.induct)
  case (1 fmt n)
  have d: "unat (n div 10) = unat n div 10" and m: "unat (n mod 10) = unat n mod 10"
    by (simp_all add: unat_div unat_mod)
  show ?case
  proof (cases "n div 10 = 0")
    case True
    with d have "unat n div 10 = 0" by simp
    then have small: "unat n < 10" by simp
    then have "unat n mod 10 = unat n" by simp
    with True small m show ?thesis
      by (subst encode_dec.simps, subst decimal_numeral.simps) (simp add: Let_def)
  next
    case False
    with d have "unat n div 10 \<noteq> 0"
      by (metis unat_eq_zero)
    then have big: "\<not> unat n < 10" by simp
    from False have "encode_dec fmt n
        = encode_dec (fmt @ [char_of (of_char CHR ''0'' + unat (n mod 10))]) (n div 10)"
      by (subst encode_dec.simps) (simp add: Let_def)
    also have "\<dots> = (fmt @ [char_of (of_char CHR ''0'' + unat (n mod 10))]) @ rev (decimal_numeral (unat (n div 10)))"
      using False by (intro "1.IH") (simp_all add: Let_def)
    also have "\<dots> = fmt @ rev (decimal_numeral (unat n))"
      using big d m by (subst (2) decimal_numeral.simps) simp
    finally show ?thesis .
  qed
qed

text \<open>
  Claim C4 at a width and a precision of two digits. \<^verbatim>\<open>encode_dec\<close> emits the digit of
  \<^verbatim>\<open>n % 10\<close> first, so a width of 12 yields the format \<open>''%21d''\<close> and a precision of 10
  yields \<open>''%.01f''\<close>: the digits of the decimal number are reversed, as they are for
  every argument of \<^verbatim>\<open>encode_dec\<close>.
\<close>

theorem fmtstring_reverses_decimal_digits:
  "fmtstring ((ostringstream_string '''')\<lparr>m_Width := 12\<rparr>) ''d'' True = ''%21d''
   \<and> fmtstring ((ostringstream_string '''')\<lparr>m_Precision := 10\<rparr>) ''f'' False = ''%.01f''
   \<and> encode_dec fmt w = fmt @ rev (decimal_numeral (unat w))"
proof -
  have "fmtstring ((ostringstream_string '''')\<lparr>m_Width := 12\<rparr>) ''d'' True = ''%21d''"
    by code_simp
  moreover
  have "fmtstring ((ostringstream_string '''')\<lparr>m_Precision := 10\<rparr>) ''f'' False = ''%.01f''"
    by code_simp
  ultimately show ?thesis
    by (simp add: encode_dec_reversed)
qed

section \<open>Construction from a string\<close>

text \<open>
  Claim C5 on the code. The constructor from a string links the view and leaves the
  position at 0: a first write of \<open>''abc''\<close> to the stream made from \<open>''hello''\<close> overwrites
  the head of the content, which becomes \<open>''abclo''\<close>, and a flush right after the
  construction truncates the buffer to nothing. The sibling \<^verbatim>\<open>str\<close> does seek to the end
  of the content.
\<close>

theorem ostringstream_string_starts_at_0:
  "pos (ostringstream_string v) = 0
   \<and> write_buffer (ostringstream_string ''hello'') ''abc'' = Inr hello_abc
   \<and> m_Buffer hello_abc = ''abclo''
   \<and> m_Buffer (flush (ostringstream_string ''hello'')) = ''''
   \<and> str (ostringstream_string '''') ''hello'' = Inr ((ostringstream_string ''hello'')\<lparr>m_Pos := 5\<rparr>)"
proof -
  have "pos (ostringstream_string v) = 0"
    by (simp add: ostringstream_string_def link_m_Buffer_def pos_def)
  moreover have "write_buffer (ostringstream_string ''hello'') ''abc'' = Inr hello_abc"
    by code_simp
  moreover have "m_Buffer hello_abc = ''abclo''"
    by code_simp
  moreover have "m_Buffer (flush (ostringstream_string ''hello'')) = ''''"
    by code_simp
  moreover have "str (ostringstream_string '''') ''hello'' = Inr ((ostringstream_string ''hello'')\<lparr>m_Pos := 5\<rparr>)"
    by code_simp
  ultimately show ?thesis
    by simp
qed

end
